theory Spec2Isabelle
  imports Main
begin

unbundle bit_operations_syntax

section \<open>Instructions and pipeline latches\<close>

text \<open>
  An instruction is a Python dictionary with the key \<open>"op"\<close> and a subset of the keys
  \<open>rd, rs1, rs2, rs, addr, target, immediate\<close>. A key that is absent is \<open>None\<close>.
  The operation names outside the ISA table are all treated alike by the code and are
  represented by \<open>NOP\<close>. Register indices, addresses and targets are Python integers.
\<close>

datatype opname = ADD | SUB | MUL | LOAD | STORE | BEQ | JUMP | NOP

record instr =
  op :: opname
  rd :: "int option"
  rs1 :: "int option"
  rs2 :: "int option"
  rs :: "int option"
  addr :: "int option"
  target :: "int option"
  immediate :: "int option"

text \<open>\<open>d.get(k, default)\<close> on an optional field.\<close>

definition get_or :: "'a option \<Rightarrow> 'a \<Rightarrow> 'a" where
  "get_or f d = (case f of Some v \<Rightarrow> v | None \<Rightarrow> d)"

text \<open>
  The four latches are dictionaries sharing the keys \<open>valid\<close> and \<open>instruction\<close>.
  The remaining keys are per latch: \<open>pc\<close> (here \<open>fetch_pc\<close>) in IF/ID;
  \<open>rs1_value, rs2_value, immediate\<close> (here \<open>imm\<close>) in ID/EX;
  \<open>alu_result, rs2_value\<close> (here \<open>store_value\<close>) in EX/MEM; \<open>result\<close> in MEM/WB.
\<close>

record latch =
  valid :: bool
  instruction :: "instr option"

record if_id_latch = latch +
  fetch_pc :: int

record id_ex_latch = latch +
  rs1_value :: int
  rs2_value :: int
  imm :: int

record ex_mem_latch = latch +
  alu_result :: int
  store_value :: int

record mem_wb_latch = latch +
  result :: int

section \<open>Hazard and forwarding unit (CPU-Pipeline/src/hazard_control.py)\<close>

text \<open>
  \<open>detect_hazards\<close>: the load-use stall query. The sentinel \<open>-1\<close> stands for a missing
  source register, as in the source.
\<close>

definition detect_hazards ::
  "'a latch_scheme \<Rightarrow> 'b latch_scheme \<Rightarrow> 'c latch_scheme \<Rightarrow> bool" where
  "detect_hazards if_id id_ex ex_mem =
     (if \<not> valid if_id then False
      else case instruction if_id of
        None \<Rightarrow> False
      | Some i \<Rightarrow>
          (let r1 = get_or (rs1 i) (- 1); r2 = get_or (rs2 i) (- 1) in
           if r1 = - 1 \<and> r2 = - 1 then False
           else if valid id_ex then
             (case instruction id_ex of
                None \<Rightarrow> False
              | Some id_ex_instr \<Rightarrow>
                  (if op id_ex_instr = LOAD then
                     (case rd id_ex_instr of
                        None \<Rightarrow> False
                      | Some d \<Rightarrow> d \<noteq> 0 \<and> (d = r1 \<or> d = r2))
                   else False))
           else False))"

datatype fwd = Fwd_none | Fwd_ex_mem | Fwd_mem_wb

definition writes_register :: "opname \<Rightarrow> bool" where
  "writes_register p = (p = ADD \<or> p = SUB \<or> p = MUL \<or> p = LOAD)"

text \<open>
  The destination register a latch can forward from: the latch is valid, its instruction
  is one of ADD, SUB, MUL, LOAD with an \<open>rd\<close> field, and \<open>rd\<close> is not 0.
\<close>

definition forward_rd :: "'a latch_scheme \<Rightarrow> int option" where
  "forward_rd l =
     (if valid l then
        (case instruction l of
           None \<Rightarrow> None
         | Some i \<Rightarrow>
             (if writes_register (op i) then
                (case rd i of None \<Rightarrow> None | Some d \<Rightarrow> if d \<noteq> 0 then Some d else None)
              else None))
      else None)"

definition get_forwarding_signals ::
  "'a latch_scheme \<Rightarrow> 'b latch_scheme \<Rightarrow> 'c latch_scheme \<Rightarrow> fwd \<times> fwd" where
  "get_forwarding_signals id_ex ex_mem mem_wb =
     (if \<not> valid id_ex then (Fwd_none, Fwd_none)
      else case instruction id_ex of
        None \<Rightarrow> (Fwd_none, Fwd_none)
      | Some i \<Rightarrow>
          (let r1 = get_or (rs1 i) (- 1); r2 = get_or (rs2 i) (- 1);
               f1 = (if forward_rd ex_mem = Some r1 then Fwd_ex_mem else Fwd_none);
               f2 = (if forward_rd ex_mem = Some r2 then Fwd_ex_mem else Fwd_none);
               f1' = (if forward_rd mem_wb = Some r1 \<and> f1 = Fwd_none then Fwd_mem_wb else f1);
               f2' = (if forward_rd mem_wb = Some r2 \<and> f2 = Fwd_none then Fwd_mem_wb else f2)
           in (f1', f2')))"

text \<open>
  \<open>apply_forwarding\<close>. The source reads \<open>ex_mem["instruction"]["op"]\<close> only under the
  signal \<open>ex_mem\<close>, which is raised only when EX/MEM holds an instruction; the \<open>None\<close>
  branch below is therefore never taken (lemma \<open>signal_ex_mem_instruction\<close>).
\<close>

definition forward_value :: "fwd \<Rightarrow> int \<Rightarrow> ex_mem_latch \<Rightarrow> mem_wb_latch \<Rightarrow> int" where
  "forward_value f latched ex_mem mem_wb =
     (case f of
        Fwd_ex_mem \<Rightarrow>
          (case instruction ex_mem of
             None \<Rightarrow> latched
           | Some i \<Rightarrow> if op i \<noteq> LOAD then alu_result ex_mem else latched)
      | Fwd_mem_wb \<Rightarrow> result mem_wb
      | Fwd_none \<Rightarrow> latched)"

definition apply_forwarding :: "id_ex_latch \<Rightarrow> ex_mem_latch \<Rightarrow> mem_wb_latch \<Rightarrow> int \<times> int" where
  "apply_forwarding id_ex ex_mem mem_wb =
     (let (forward_rs1, forward_rs2) = get_forwarding_signals id_ex ex_mem mem_wb
      in (forward_value forward_rs1 (rs1_value id_ex) ex_mem mem_wb,
          forward_value forward_rs2 (rs2_value id_ex) ex_mem mem_wb))"

section \<open>Example latches for the hazard unit\<close>

definition ex_load_r8 :: instr where
  "ex_load_r8 = \<lparr>op = LOAD, rd = Some 8, rs1 = None, rs2 = None, rs = None,
                 addr = Some 100, target = None, immediate = None\<rparr>"

definition ex_add_r9 :: instr where
  "ex_add_r9 = \<lparr>op = ADD, rd = Some 9, rs1 = Some 8, rs2 = Some 10, rs = None,
                addr = None, target = None, immediate = None\<rparr>"

definition ex_if_id :: if_id_latch where
  "ex_if_id = \<lparr>valid = True, instruction = Some ex_add_r9, fetch_pc = 1\<rparr>"

definition ex_id_ex :: id_ex_latch where
  "ex_id_ex = \<lparr>valid = True, instruction = Some ex_load_r8,
                rs1_value = 0, rs2_value = 0, imm = 100\<rparr>"

definition ex_ex_mem :: ex_mem_latch where
  "ex_ex_mem = \<lparr>valid = False, instruction = None, alu_result = 0, store_value = 0\<rparr>"

definition ex_load_r3 :: instr where
  "ex_load_r3 = \<lparr>op = LOAD, rd = Some 3, rs1 = None, rs2 = None, rs = None,
                 addr = Some 7, target = None, immediate = None\<rparr>"

definition ex_add_r3 :: instr where
  "ex_add_r3 = \<lparr>op = ADD, rd = Some 3, rs1 = Some 1, rs2 = Some 2, rs = None,
                addr = None, target = None, immediate = None\<rparr>"

definition ex_sub_r3 :: instr where
  "ex_sub_r3 = \<lparr>op = SUB, rd = Some 5, rs1 = Some 3, rs2 = Some 4, rs = None,
                addr = None, target = None, immediate = None\<rparr>"

section \<open>Instruction encoding (CPU/src/isa.py)\<close>

text \<open>
  The table of opcodes and formats of class \<open>ISA\<close>. \<open>OPCODES\<close> is a dictionary; the
  decoder walks its items in insertion order. Python integers are unbounded, so the
  encoded word is an \<open>int\<close> built with shifts and bitwise or.
\<close>

datatype format = Fmt_R | Fmt_I | Fmt_S | Fmt_B | Fmt_J

definition OPCODES :: "(opname \<times> int) list" where
  "OPCODES = [(ADD, 0x00), (SUB, 0x01), (MUL, 0x02), (LOAD, 0x03), (STORE, 0x04),
              (BEQ, 0x05), (JUMP, 0x06)]"

definition FORMATS :: "opname \<Rightarrow> format" where
  "FORMATS p = (case p of ADD \<Rightarrow> Fmt_R | SUB \<Rightarrow> Fmt_R | MUL \<Rightarrow> Fmt_R | LOAD \<Rightarrow> Fmt_I
                | STORE \<Rightarrow> Fmt_S | BEQ \<Rightarrow> Fmt_B | JUMP \<Rightarrow> Fmt_J | NOP \<Rightarrow> Fmt_R)"

definition encode_instruction :: "instr \<Rightarrow> int" where
  "encode_instruction instr =
     (case map_of OPCODES (op instr) of
        None \<Rightarrow> 0
      | Some opcode \<Rightarrow>
          (case FORMATS (op instr) of
             Fmt_R \<Rightarrow>
               push_bit 26 opcode OR push_bit 21 (get_or (rs1 instr) 0) OR
               push_bit 16 (get_or (rs2 instr) 0) OR push_bit 11 (get_or (rd instr) 0) OR 0
           | Fmt_I \<Rightarrow>
               push_bit 26 opcode OR push_bit 21 (get_or (rs1 instr) 0) OR
               push_bit 16 (get_or (rd instr) 0) OR (get_or (addr instr) 0 AND 0xFFFF)
           | Fmt_S \<Rightarrow>
               push_bit 26 opcode OR push_bit 21 (get_or (rs instr) 0) OR
               (get_or (addr instr) 0 AND 0x1FFFFF)
           | Fmt_B \<Rightarrow>
               push_bit 26 opcode OR push_bit 21 (get_or (rs1 instr) 0) OR
               push_bit 16 (get_or (rs2 instr) 0) OR (get_or (target instr) 0 AND 0xFFFF)
           | Fmt_J \<Rightarrow>
               push_bit 26 opcode OR (get_or (target instr) 0 AND 0x3FFFFFF)))"

text \<open>
  \<open>decode_instruction\<close> returns a dictionary with \<open>op\<close> and the fields of the format.
  The sign extension of the source ors the high bits \<open>0xFFFF0000\<close> (and so on) into the
  value, which is a non-negative Python integer afterwards.
\<close>

definition no_fields :: "opname \<Rightarrow> instr" where
  "no_fields p = \<lparr>op = p, rd = None, rs1 = None, rs2 = None, rs = None, addr = None,
                  target = None, immediate = None\<rparr>"

fun find_op :: "(opname \<times> int) list \<Rightarrow> int \<Rightarrow> opname option" where
  "find_op [] opcode = None"
| "find_op ((key, value) # items) opcode =
     (if value = opcode then Some key else find_op items opcode)"

definition sign_extend :: "int \<Rightarrow> int \<Rightarrow> int \<Rightarrow> int" where
  "sign_extend sign_bit high v = (if v AND sign_bit \<noteq> 0 then v OR high else v)"

definition decode_instruction :: "int \<Rightarrow> instr" where
  "decode_instruction binary =
     (case find_op OPCODES (drop_bit 26 binary AND 0x3F) of
        None \<Rightarrow> no_fields NOP
      | Some p \<Rightarrow>
          (case FORMATS p of
             Fmt_R \<Rightarrow>
               (no_fields p)\<lparr>rs1 := Some (drop_bit 21 binary AND 0x1F),
                              rs2 := Some (drop_bit 16 binary AND 0x1F),
                              rd := Some (drop_bit 11 binary AND 0x1F)\<rparr>
           | Fmt_I \<Rightarrow>
               (no_fields p)\<lparr>rs1 := Some (drop_bit 21 binary AND 0x1F),
                              rd := Some (drop_bit 16 binary AND 0x1F),
                              addr := Some (sign_extend 0x8000 0xFFFF0000 (binary AND 0xFFFF))\<rparr>
           | Fmt_S \<Rightarrow>
               (no_fields p)\<lparr>rs := Some (drop_bit 21 binary AND 0x1F),
                              addr := Some (sign_extend 0x100000 0xFFE00000
                                              (binary AND 0x1FFFFF))\<rparr>
           | Fmt_B \<Rightarrow>
               (no_fields p)\<lparr>rs1 := Some (drop_bit 21 binary AND 0x1F),
                              rs2 := Some (drop_bit 16 binary AND 0x1F),
                              target := Some (sign_extend 0x8000 0xFFFF0000
                                                (binary AND 0xFFFF))\<rparr>
           | Fmt_J \<Rightarrow>
               (no_fields p)\<lparr>target := Some (sign_extend 0x2000000 0xFC000000
                                                (binary AND 0x3FFFFFF))\<rparr>))"

text \<open>\<open>LOAD R10, 100\<close> and \<open>LOAD R1, -1\<close>, both with \<open>rs1 = 0\<close>.\<close>

definition load_r10 :: instr where
  "load_r10 = (no_fields LOAD)\<lparr>rd := Some 10, rs1 := Some 0, addr := Some 100\<rparr>"

definition load_neg :: instr where
  "load_neg = (no_fields LOAD)\<lparr>rd := Some 1, rs1 := Some 0, addr := Some (- 1)\<rparr>"

text \<open>
  \<open>encodable\<close>: the instruction is one of the seven operations, has exactly the fields of
  its format (a LOAD declares \<open>rs1\<close>), its register indices lie in 0..31 and its \<open>addr\<close> or
  \<open>target\<close> is not negative and below the sign bit of its field.
\<close>

definition reg_ok :: "int option \<Rightarrow> bool" where
  "reg_ok f = (case f of Some r \<Rightarrow> 0 \<le> r \<and> r < 32 | None \<Rightarrow> False)"

definition imm_ok :: "nat \<Rightarrow> int option \<Rightarrow> bool" where
  "imm_ok w f = (case f of Some m \<Rightarrow> 0 \<le> m \<and> m < 2 ^ (w - 1) | None \<Rightarrow> False)"

definition encodable :: "instr \<Rightarrow> bool" where
  "encodable i =
     (immediate i = None \<and>
      (case FORMATS (op i) of
         Fmt_R \<Rightarrow> op i \<noteq> NOP \<and> reg_ok (rd i) \<and> reg_ok (rs1 i) \<and> reg_ok (rs2 i) \<and>
                  rs i = None \<and> addr i = None \<and> target i = None
       | Fmt_I \<Rightarrow> reg_ok (rd i) \<and> reg_ok (rs1 i) \<and> imm_ok 16 (addr i) \<and>
                  rs2 i = None \<and> rs i = None \<and> target i = None
       | Fmt_S \<Rightarrow> reg_ok (rs i) \<and> imm_ok 21 (addr i) \<and>
                  rd i = None \<and> rs1 i = None \<and> rs2 i = None \<and> target i = None
       | Fmt_B \<Rightarrow> reg_ok (rs1 i) \<and> reg_ok (rs2 i) \<and> imm_ok 16 (target i) \<and>
                  rd i = None \<and> rs i = None \<and> addr i = None
       | Fmt_J \<Rightarrow> imm_ok 26 (target i) \<and>
                  rd i = None \<and> rs1 i = None \<and> rs2 i = None \<and> rs i = None \<and> addr i = None))"


text \<open>
  The immediate of an instruction is its \<open>addr\<close> (formats I and S) or its \<open>target\<close>
  (formats B and J), held in a field of 16, 21, 16 or 26 bits. A register field that is
  absent is read as 0 by the encoder (\<open>instr.get(k, 0)\<close>).
\<close>

definition imm_field :: "instr \<Rightarrow> int option" where
  "imm_field i =
     (case FORMATS (op i) of Fmt_R \<Rightarrow> None | Fmt_I \<Rightarrow> addr i | Fmt_S \<Rightarrow> addr i
      | Fmt_B \<Rightarrow> target i | Fmt_J \<Rightarrow> target i)"

definition imm_bits :: "format \<Rightarrow> nat" where
  "imm_bits f = (case f of Fmt_R \<Rightarrow> 0 | Fmt_I \<Rightarrow> 16 | Fmt_S \<Rightarrow> 21 | Fmt_B \<Rightarrow> 16 | Fmt_J \<Rightarrow> 26)"

definition reg_field_ok :: "int option \<Rightarrow> bool" where
  "reg_field_ok f = (0 \<le> get_or f 0 \<and> get_or f 0 < 32)"

definition negative_immediate :: "instr \<Rightarrow> int \<Rightarrow> bool" where
  "negative_immediate i m =
     (op i \<noteq> NOP \<and> reg_field_ok (rd i) \<and> reg_field_ok (rs1 i) \<and> reg_field_ok (rs2 i) \<and>
      reg_field_ok (rs i) \<and> imm_field i = Some m \<and>
      - (2 ^ (imm_bits (FORMATS (op i)) - 1)) \<le> m \<and> m < 0)"

section \<open>Python lists and exceptions\<close>

text \<open>
  The exceptions the modelled code can raise. A function that can raise returns
  \<open>error + 'a\<close>; the exception leaves the simulator, so the state at the raise is dropped.
\<close>

datatype error = IndexError | KeyError | TypeError | ValueError

definition bind_e :: "error + 'a \<Rightarrow> ('a \<Rightarrow> error + 'b) \<Rightarrow> error + 'b" where
  "bind_e m f = (case m of Inl e \<Rightarrow> Inl e | Inr x \<Rightarrow> f x)"

text \<open>
  Python list indexing \<open>xs[i]\<close>: a negative index counts from the end, an index outside
  \<open>-len(xs) .. len(xs)-1\<close> raises IndexError.
\<close>

definition py_index :: "'a list \<Rightarrow> int \<Rightarrow> nat option" where
  "py_index xs i =
     (if 0 \<le> i \<and> i < int (length xs) then Some (nat i)
      else if i < 0 \<and> - int (length xs) \<le> i then Some (nat (int (length xs) + i))
      else None)"

definition py_get :: "'a list \<Rightarrow> int \<Rightarrow> error + 'a" where
  "py_get xs i = (case py_index xs i of None \<Rightarrow> Inl IndexError | Some k \<Rightarrow> Inr (xs ! k))"

definition py_set :: "'a list \<Rightarrow> int \<Rightarrow> 'a \<Rightarrow> error + 'a list" where
  "py_set xs i v = (case py_index xs i of None \<Rightarrow> Inl IndexError | Some k \<Rightarrow> Inr (xs[k := v]))"

section \<open>Processor state (class PipelineCPU)\<close>

text \<open>
  The dictionary \<open>self.pipeline\<close> with the keys IF, ID, EX, MEM, WB: the instruction shown
  in each stage, or \<open>None\<close>. The loop of \<open>run\<close> reads it.
\<close>

record view =
  IF_stage :: "instr option"
  ID_stage :: "instr option"
  EX_stage :: "instr option"
  MEM_stage :: "instr option"
  WB_stage :: "instr option"

record cpu =
  cycles :: int
  instructions_completed :: int
  stalls_inserted :: int
  branches_taken :: int
  if_id :: if_id_latch
  id_ex :: id_ex_latch
  ex_mem :: ex_mem_latch
  mem_wb :: mem_wb_latch
  pipeline :: view
  pc :: int
  registers :: "int list"
  memory :: "int list"
  instructions :: "instr list"
  stall :: bool
  flush :: bool

text \<open>
  The repository holds two versions of the pipeline: \<open>src/CPU/src/pipeline.py\<close> (\<open>CPU\<close>)
  and \<open>src/CPU-Pipeline/src/pipeline.py\<close> (\<open>CPU_Pipeline\<close>). The stages \<open>writeback_stage\<close>,
  \<open>memory_stage\<close> and \<open>decode_stage\<close> are the same in both; \<open>execute_stage\<close>,
  \<open>fetch_stage\<close> and \<open>step\<close> differ and take the version as a parameter.
\<close>

datatype version = CPU | CPU_Pipeline

definition if_id_invalid :: "int \<Rightarrow> if_id_latch" where
  "if_id_invalid p = \<lparr>valid = False, instruction = None, fetch_pc = p\<rparr>"

definition id_ex_invalid :: id_ex_latch where
  "id_ex_invalid = \<lparr>valid = False, instruction = None, rs1_value = 0, rs2_value = 0, imm = 0\<rparr>"

definition ex_mem_invalid :: ex_mem_latch where
  "ex_mem_invalid = \<lparr>valid = False, instruction = None, alu_result = 0, store_value = 0\<rparr>"

definition mem_wb_invalid :: mem_wb_latch where
  "mem_wb_invalid = \<lparr>valid = False, instruction = None, result = 0\<rparr>"

definition empty_view :: view where
  "empty_view = \<lparr>IF_stage = None, ID_stage = None, EX_stage = None, MEM_stage = None,
                 WB_stage = None\<rparr>"

definition init_cpu :: cpu where
  "init_cpu = \<lparr>cycles = 0, instructions_completed = 0, stalls_inserted = 0, branches_taken = 0,
     if_id = if_id_invalid 0, id_ex = id_ex_invalid, ex_mem = ex_mem_invalid,
     mem_wb = mem_wb_invalid, pipeline = empty_view, pc = 0,
     registers = replicate 32 0, memory = replicate 1024 0, instructions = [],
     stall = False, flush = False\<rparr>"

definition reset_pipeline :: "cpu \<Rightarrow> cpu" where
  "reset_pipeline s = s\<lparr>if_id := if_id_invalid 0, id_ex := id_ex_invalid,
     ex_mem := ex_mem_invalid, mem_wb := mem_wb_invalid, pipeline := empty_view\<rparr>"

definition load_instructions :: "instr list \<Rightarrow> cpu \<Rightarrow> cpu" where
  "load_instructions prog s = reset_pipeline (s\<lparr>instructions := prog, pc := 0\<rparr>)"

subsection \<open>WB\<close>

definition writeback_stage :: "cpu \<Rightarrow> error + cpu" where
  "writeback_stage s =
     (if \<not> valid (mem_wb s) then Inr (s\<lparr>pipeline := (pipeline s)\<lparr>WB_stage := None\<rparr>\<rparr>)
      else case instruction (mem_wb s) of
        None \<Rightarrow> Inl TypeError
      | Some i \<Rightarrow>
          bind_e
            (if writes_register (op i) then
               (case rd i of
                  None \<Rightarrow> Inr (registers s)
                | Some d \<Rightarrow>
                    if d \<noteq> 0 then py_set (registers s) d (result (mem_wb s))
                    else Inr (registers s))
             else Inr (registers s))
            (\<lambda>regs. Inr (s\<lparr>pipeline := (pipeline s)\<lparr>WB_stage := Some i\<rparr>,
                          registers := regs,
                          instructions_completed := instructions_completed s + 1\<rparr>)))"

subsection \<open>MEM\<close>

definition in_memory :: "cpu \<Rightarrow> int \<Rightarrow> bool" where
  "in_memory s a = (0 \<le> a \<and> a < int (length (memory s)))"

definition memory_stage :: "cpu \<Rightarrow> error + cpu" where
  "memory_stage s =
     (if \<not> valid (ex_mem s) then
        Inr (s\<lparr>mem_wb := mem_wb_invalid, pipeline := (pipeline s)\<lparr>MEM_stage := None\<rparr>\<rparr>)
      else case instruction (ex_mem s) of
        None \<Rightarrow> Inl TypeError
      | Some i \<Rightarrow>
          (let a = alu_result (ex_mem s);
               s1 = s\<lparr>pipeline := (pipeline s)\<lparr>MEM_stage := Some i\<rparr>\<rparr>
           in if op i = LOAD then
                Inr (s1\<lparr>mem_wb := \<lparr>valid = True, instruction = Some i,
                          result = (if in_memory s a then memory s ! nat a else a)\<rparr>\<rparr>)
              else if op i = STORE then
                (if in_memory s a then
                   bind_e
                     (case rs i of
                        Some r \<Rightarrow> py_get (registers s) r
                      | None \<Rightarrow> Inr (store_value (ex_mem s)))
                     (\<lambda>v. Inr (s1\<lparr>memory := (memory s)[nat a := v],
                                  mem_wb := \<lparr>valid = True, instruction = Some i, result = a\<rparr>\<rparr>))
                 else Inr (s1\<lparr>mem_wb := \<lparr>valid = True, instruction = Some i, result = a\<rparr>\<rparr>))
              else Inr (s1\<lparr>mem_wb := \<lparr>valid = True, instruction = Some i, result = a\<rparr>\<rparr>)))"

subsection \<open>EX\<close>

text \<open>
  A taken BEQ or a JUMP: \<open>pc\<close>, \<open>flush\<close> and \<open>branches_taken\<close> are updated; the version
  \<open>CPU_Pipeline\<close> also invalidates IF/ID and clears the IF and ID views here.
  \<open>instruction["target"]\<close> raises KeyError when the field is absent.
\<close>

definition take_branch :: "version \<Rightarrow> instr \<Rightarrow> cpu \<Rightarrow> error + cpu" where
  "take_branch v i s =
     (case target i of
        None \<Rightarrow> Inl KeyError
      | Some t \<Rightarrow>
          (let s1 = s\<lparr>pc := t, flush := True, branches_taken := branches_taken s + 1\<rparr>
           in case v of
                CPU \<Rightarrow> Inr s1
              | CPU_Pipeline \<Rightarrow>
                  Inr (s1\<lparr>if_id := if_id_invalid t,
                          pipeline := (pipeline s1)\<lparr>IF_stage := None, ID_stage := None\<rparr>\<rparr>)))"

definition execute_stage :: "version \<Rightarrow> cpu \<Rightarrow> error + cpu" where
  "execute_stage v s =
     (if \<not> valid (id_ex s) then
        Inr (s\<lparr>ex_mem := ex_mem_invalid, pipeline := (pipeline s)\<lparr>EX_stage := None\<rparr>\<rparr>)
      else case instruction (id_ex s) of
        None \<Rightarrow> Inl TypeError
      | Some i \<Rightarrow>
          (case apply_forwarding (id_ex s) (ex_mem s) (mem_wb s) of
             (rs1_v, rs2_v) \<Rightarrow>
               (let s1 = s\<lparr>pipeline := (pipeline s)\<lparr>EX_stage := Some i\<rparr>\<rparr> in
                bind_e
                  (case op i of
                     ADD \<Rightarrow> Inr (rs1_v + rs2_v, s1)
                   | SUB \<Rightarrow> Inr (rs1_v - rs2_v, s1)
                   | MUL \<Rightarrow> Inr (rs1_v * rs2_v, s1)
                   | LOAD \<Rightarrow> Inr (imm (id_ex s), s1)
                   | STORE \<Rightarrow> Inr (imm (id_ex s), s1)
                   | BEQ \<Rightarrow>
                       (if rs1_v = rs2_v then
                          bind_e (take_branch v i s1) (\<lambda>s2. Inr (1, s2))
                        else Inr (0, s1))
                   | JUMP \<Rightarrow> bind_e (take_branch v i s1) (\<lambda>s2. Inr (0, s2))
                   | NOP \<Rightarrow> Inr (0, s1))
                  (\<lambda>(alu, s2).
                     Inr (s2\<lparr>ex_mem := \<lparr>valid = True, instruction = Some i,
                                         alu_result = alu, store_value = rs2_v\<rparr>\<rparr>)))))"

subsection \<open>ID\<close>

definition read_register :: "cpu \<Rightarrow> int option \<Rightarrow> error + int" where
  "read_register s f = (case f of None \<Rightarrow> Inr 0 | Some r \<Rightarrow> py_get (registers s) r)"

definition decode_immediate :: "instr \<Rightarrow> int" where
  "decode_immediate i =
     (case immediate i of
        Some m \<Rightarrow> m
      | None \<Rightarrow> (case addr i of Some a \<Rightarrow> a | None \<Rightarrow> 0))"

definition decode_stage :: "cpu \<Rightarrow> error + cpu" where
  "decode_stage s =
     (if flush s then
        Inr (s\<lparr>if_id := if_id_invalid (pc s), pipeline := (pipeline s)\<lparr>ID_stage := None\<rparr>\<rparr>)
      else if \<not> valid (if_id s) then
        Inr (s\<lparr>id_ex := id_ex_invalid, pipeline := (pipeline s)\<lparr>ID_stage := None\<rparr>\<rparr>)
      else case instruction (if_id s) of
        None \<Rightarrow> Inl TypeError
      | Some i \<Rightarrow>
          (let s1 = s\<lparr>pipeline := (pipeline s)\<lparr>ID_stage := Some i\<rparr>,
                     stall := detect_hazards (if_id s) (id_ex s) (ex_mem s)\<rparr>
           in if stall s1 then
                Inr (s1\<lparr>stalls_inserted := stalls_inserted s + 1, id_ex := id_ex_invalid\<rparr>)
              else
                bind_e (read_register s (rs1 i)) (\<lambda>v1.
                bind_e (read_register s (rs2 i)) (\<lambda>v2.
                  Inr (s1\<lparr>id_ex := \<lparr>valid = True, instruction = Some i, rs1_value = v1,
                                     rs2_value = v2, imm = decode_immediate i\<rparr>\<rparr>)))))"

subsection \<open>IF\<close>

definition fetch_stage :: "version \<Rightarrow> cpu \<Rightarrow> error + cpu" where
  "fetch_stage v s =
     (if stall s then
        (case v of
           CPU \<Rightarrow> Inr (s\<lparr>pipeline := (pipeline s)\<lparr>IF_stage := None\<rparr>\<rparr>)
         | CPU_Pipeline \<Rightarrow> Inr s)
      else if pc s < int (length (instructions s)) then
        bind_e (py_get (instructions s) (pc s)) (\<lambda>i.
          Inr (s\<lparr>if_id := \<lparr>valid = True, instruction = Some i, fetch_pc = pc s\<rparr>,
                 pc := pc s + 1,
                 pipeline := (pipeline s)\<lparr>IF_stage := Some i\<rparr>\<rparr>))
      else
        Inr (s\<lparr>if_id := if_id_invalid (pc s), pipeline := (pipeline s)\<lparr>IF_stage := None\<rparr>\<rparr>))"

subsection \<open>One cycle\<close>

definition shown :: "'a latch_scheme \<Rightarrow> instr option" where
  "shown l = (if valid l then instruction l else None)"

definition update_pipeline_view :: "cpu \<Rightarrow> cpu" where
  "update_pipeline_view s =
     s\<lparr>pipeline := \<lparr>IF_stage = shown (if_id s), ID_stage = shown (id_ex s),
                    EX_stage = shown (ex_mem s), MEM_stage = shown (mem_wb s),
                    WB_stage = MEM_stage (pipeline s)\<rparr>\<rparr>"

text \<open>The block after EX in \<open>step\<close> of the version \<open>CPU\<close>.\<close>

definition post_ex_flush :: "cpu \<Rightarrow> cpu" where
  "post_ex_flush s =
     (if flush s then
        s\<lparr>if_id := if_id_invalid (pc s), pipeline := (pipeline s)\<lparr>IF_stage := None\<rparr>,
          flush := False\<rparr>
      else s)"

text \<open>The reset of the flag at the end of \<open>step\<close> of the version \<open>CPU_Pipeline\<close>.\<close>

definition reset_flush :: "cpu \<Rightarrow> cpu" where
  "reset_flush s = (if flush s then s\<lparr>flush := False\<rparr> else s)"

definition step :: "version \<Rightarrow> cpu \<Rightarrow> error + cpu" where
  "step v s =
     bind_e (writeback_stage (s\<lparr>cycles := cycles s + 1\<rparr>)) (\<lambda>s1.
     bind_e (memory_stage s1) (\<lambda>s2.
     bind_e (execute_stage v s2) (\<lambda>s3.
       (case v of
          CPU \<Rightarrow>
            bind_e (decode_stage (post_ex_flush s3)) (\<lambda>s4.
            bind_e (fetch_stage v s4) (\<lambda>s5. Inr (update_pipeline_view s5)))
        | CPU_Pipeline \<Rightarrow>
            bind_e (decode_stage s3) (\<lambda>s4.
            bind_e (fetch_stage v s4) (\<lambda>s5. Inr (reset_flush (update_pipeline_view s5))))))))"

fun steps :: "version \<Rightarrow> nat \<Rightarrow> cpu \<Rightarrow> error + cpu" where
  "steps v 0 s = Inr s"
| "steps v (Suc n) s = bind_e (step v s) (steps v n)"

subsection \<open>run\<close>

text \<open>
  The condition of the loop of \<open>run\<close>: some stage of the view shows an instruction, or
  \<open>pc\<close> is inside the program.
\<close>

definition busy :: "cpu \<Rightarrow> bool" where
  "busy s =
     (IF_stage (pipeline s) \<noteq> None \<or> ID_stage (pipeline s) \<noteq> None \<or>
      EX_stage (pipeline s) \<noteq> None \<or> MEM_stage (pipeline s) \<noteq> None \<or>
      WB_stage (pipeline s) \<noteq> None \<or> pc s < int (length (instructions s)))"

text \<open>
  \<open>run(cycles=None)\<close>: the loop has no bound, so the model is a partial function; \<open>None\<close>
  is a run that never returns, \<open>Some (Inl e)\<close> a run that raises, \<open>Some (Inr s)\<close> a
  run that returns in state \<open>s\<close> (the statistics it returns are fields of \<open>s\<close>).
\<close>

partial_function (option) run :: "version \<Rightarrow> cpu \<Rightarrow> (error + cpu) option" where
  "run v s =
     (if busy s then
        (case step v s of Inl e \<Rightarrow> Some (Inl e) | Inr s' \<Rightarrow> run v s')
      else Some (Inr s))"

text \<open>\<open>run(cycles=n)\<close>: at most \<open>n\<close> iterations of the same loop.\<close>

fun run_cycles :: "version \<Rightarrow> nat \<Rightarrow> cpu \<Rightarrow> error + cpu" where
  "run_cycles v 0 s = Inr s"
| "run_cycles v (Suc n) s =
     (if busy s then bind_e (step v s) (run_cycles v n) else Inr s)"


section \<open>Predicates on the instructions in flight\<close>

text \<open>
  \<open>holds P l\<close>: the instruction of a valid latch satisfies \<open>P\<close>. \<open>all_instrs P s\<close>: every
  instruction of the program and of the valid latches satisfies \<open>P\<close>.
  \<open>rd_ok\<close>: a destination register index is not negative (the data model has the
  indices 0..31; Python would read a negative index from the end of the register list).
\<close>

definition holds :: "(instr \<Rightarrow> bool) \<Rightarrow> 'a latch_scheme \<Rightarrow> bool" where
  "holds P l = (valid l \<longrightarrow> (case instruction l of None \<Rightarrow> True | Some i \<Rightarrow> P i))"

definition all_instrs :: "(instr \<Rightarrow> bool) \<Rightarrow> cpu \<Rightarrow> bool" where
  "all_instrs P s = (list_all P (instructions s) \<and> holds P (if_id s) \<and> holds P (id_ex s) \<and>
      holds P (ex_mem s) \<and> holds P (mem_wb s))"

definition rd_ok :: "instr \<Rightarrow> bool" where
  "rd_ok i = (case rd i of None \<Rightarrow> True | Some d \<Rightarrow> 0 \<le> d)"

definition add_to_r0 :: instr where
  "add_to_r0 = \<lparr>op = ADD, rd = Some 0, rs1 = Some 1, rs2 = Some 1, rs = None,
                addr = None, target = None, immediate = None\<rparr>"

definition r0_state :: cpu where
  "r0_state = (load_instructions [add_to_r0] init_cpu)\<lparr>registers := [0, 5, 0, 0]\<rparr>"

section \<open>Example programs with a jump\<close>

definition jump_to :: "int \<Rightarrow> instr" where
  "jump_to t = \<lparr>op = JUMP, rd = None, rs1 = None, rs2 = None, rs = None,
                addr = None, target = Some t, immediate = None\<rparr>"


text \<open>The program that consists of \<open>JUMP 1\<close> alone: the jump leaves the program.\<close>

definition jump_out_state :: cpu where
  "jump_out_state = load_instructions [jump_to 1] init_cpu"

text \<open>
  The states of the version \<open>CPU_Pipeline\<close> in which the executed \<open>JUMP 1\<close> is still in
  ID/EX: \<open>decode_stage\<close> returns on \<open>flush\<close> without touching ID/EX.
\<close>

definition jump_latch :: id_ex_latch where
  "jump_latch = \<lparr>valid = True, instruction = Some (jump_to 1), rs1_value = 0,
                  rs2_value = 0, imm = 0\<rparr>"

definition stuck :: "cpu \<Rightarrow> bool" where
  "stuck s =
     (if_id s = if_id_invalid 1 \<and> id_ex s = jump_latch \<and>
      ex_mem s = \<lparr>valid = True, instruction = Some (jump_to 1), alu_result = 0,
                  store_value = 0\<rparr> \<and>
      mem_wb s = \<lparr>valid = True, instruction = Some (jump_to 1), result = 0\<rparr> \<and>
      instructions s = [jump_to 1] \<and> pc s = 1 \<and> \<not> stall s \<and>
      ID_stage (pipeline s) = Some (jump_to 1))"


section \<open>Predicates for the loop of \<open>run\<close>\<close>

text \<open>
  \<open>no_branch\<close>: an instruction that cannot redirect the program counter.
  \<open>view_ok\<close>: the view \<open>self.pipeline\<close> shows an instruction exactly in the stages whose
  latch is valid (IF/ID, ID/EX, EX/MEM, MEM/WB feed the entries IF, ID, EX, MEM; WB
  repeats MEM). It holds after \<open>load_instructions\<close> and after every step.
  \<open>drained\<close>: all four latches invalid and \<open>pc\<close> at or past the end of the program.
\<close>

definition no_branch :: "instr \<Rightarrow> bool" where
  "no_branch i = (op i \<noteq> BEQ \<and> op i \<noteq> JUMP)"

definition view_ok :: "cpu \<Rightarrow> bool" where
  "view_ok s =
     ((IF_stage (pipeline s) \<noteq> None \<longleftrightarrow> valid (if_id s)) \<and>
      (ID_stage (pipeline s) \<noteq> None \<longleftrightarrow> valid (id_ex s)) \<and>
      (EX_stage (pipeline s) \<noteq> None \<longleftrightarrow> valid (ex_mem s)) \<and>
      (MEM_stage (pipeline s) \<noteq> None \<longleftrightarrow> valid (mem_wb s)) \<and>
      (WB_stage (pipeline s) \<noteq> None \<longrightarrow> valid (mem_wb s)))"

definition drained :: "cpu \<Rightarrow> bool" where
  "drained s =
     (\<not> valid (if_id s) \<and> \<not> valid (id_ex s) \<and> \<not> valid (ex_mem s) \<and> \<not> valid (mem_wb s) \<and>
      int (length (instructions s)) \<le> pc s)"

text \<open>
  \<open>run_inv\<close>: the states from which a program without branches drains. \<open>potential\<close>:
  the bound on the remaining steps used for termination: 5 for each instruction not yet
  fetched, 4, 3, 2, 1 for a valid IF/ID, ID/EX, EX/MEM, MEM/WB.
\<close>

definition run_inv :: "cpu \<Rightarrow> bool" where
  "run_inv s = (view_ok s \<and> all_instrs no_branch s \<and> \<not> flush s \<and> (stall s \<longrightarrow> valid (if_id s)))"

definition weight :: "bool \<Rightarrow> nat \<Rightarrow> nat" where
  "weight b n = (if b then n else 0)"

definition potential :: "cpu \<Rightarrow> nat" where
  "potential s =
     5 * nat (int (length (instructions s)) - pc s) + weight (valid (if_id s)) 4 +
     weight (valid (id_ex s)) 3 + weight (valid (ex_mem s)) 2 + weight (valid (mem_wb s)) 1"

text \<open>
  The program \<open>JUMP 0\<close>, and the two states between which the version \<open>CPU\<close> alternates
  on it: the jump in IF/ID (just fetched again), or the jump in ID/EX.
\<close>

definition jump_back_state :: cpu where
  "jump_back_state = load_instructions [jump_to 0] init_cpu"

definition looping :: "cpu \<Rightarrow> bool" where
  "looping s =
     (instructions s = [jump_to 0] \<and> pc s = 1 \<and> \<not> stall s \<and> \<not> flush s \<and>
      (if valid (if_id s) then
         if_id s = \<lparr>valid = True, instruction = Some (jump_to 0), fetch_pc = 0\<rparr> \<and>
         id_ex s = id_ex_invalid \<and>
         ex_mem s = \<lparr>valid = True, instruction = Some (jump_to 0), alu_result = 0,
                     store_value = 0\<rparr> \<and>
         mem_wb s = mem_wb_invalid \<and> IF_stage (pipeline s) = Some (jump_to 0)
       else
         if_id s = if_id_invalid 1 \<and>
         id_ex s = \<lparr>valid = True, instruction = Some (jump_to 0), rs1_value = 0,
                    rs2_value = 0, imm = 0\<rparr> \<and>
         ex_mem s = ex_mem_invalid \<and>
         mem_wb s = \<lparr>valid = True, instruction = Some (jump_to 0), result = 0\<rparr> \<and>
         ID_stage (pipeline s) = Some (jump_to 0)))"

text \<open>The load-use program of the repository's tests: \<open>LOAD R8, 100; ADD R9, R8, R10\<close>.\<close>

definition load_use_state :: cpu where
  "load_use_state = load_instructions [ex_load_r8, ex_add_r9] init_cpu"


section \<open>A STORE behind the producer of its source register\<close>

text \<open>
  \<open>is_store q r a\<close>: \<open>q\<close> is an S-form instruction \<open>STORE Rr, a\<close> (fields \<open>rs\<close> and \<open>addr\<close> only).
  \<open>is_producer p r\<close>: \<open>p\<close> is an ADD, SUB, MUL or LOAD with destination \<open>r\<close>, \<open>r\<close> a register
  index that is not 0.
\<close>

definition is_store :: "instr \<Rightarrow> int \<Rightarrow> int \<Rightarrow> bool" where
  "is_store q r a = (op q = STORE \<and> rs q = Some r \<and> rs1 q = None \<and> rs2 q = None \<and>
     immediate q = None \<and> addr q = Some a)"

definition is_producer :: "instr \<Rightarrow> int \<Rightarrow> bool" where
  "is_producer p r = (writes_register (op p) \<and> rd p = Some r \<and> 0 < r)"

text \<open>The first two instructions of the repository's memory test, with \<open>R2 = 10, R3 = 20\<close>.\<close>

definition add_r1 :: instr where
  "add_r1 = \<lparr>op = ADD, rd = Some 1, rs1 = Some 2, rs2 = Some 3, rs = None,
             addr = None, target = None, immediate = None\<rparr>"

definition store_r1 :: instr where
  "store_r1 = \<lparr>op = STORE, rd = None, rs1 = None, rs2 = None, rs = Some 1,
               addr = Some 100, target = None, immediate = None\<rparr>"

definition store_state :: cpu where
  "store_state = (load_instructions [add_r1, store_r1] init_cpu)
                   \<lparr>registers := (replicate 32 0)[2 := 10, 3 := 20]\<rparr>"


section \<open>Cache simulator (cache_simulator.py)\<close>

text \<open>
  A block of the cache (class \<open>BloqueCache\<close>): tag, data words, valid bit and the LRU
  counter. A fresh block has the tag \<open>-1\<close>, \<open>tamano_bloque\<close> zero words and is not valid.
\<close>

record BloqueCache =
  etiqueta :: int
  datos :: "int list"
  valido :: bool
  contador_uso :: int

definition BloqueCache_init :: "int \<Rightarrow> BloqueCache" where
  "BloqueCache_init tb = \<lparr>etiqueta = - 1, datos = replicate (nat tb) 0, valido = False,
                            contador_uso = 0\<rparr>"

text \<open>
  The attributes of \<open>CacheBase\<close> and of its two subclasses. The bit counts and the masks
  are computed by the constructors of the subclasses with the same code, so they are
  fields of the base record here; \<open>_desglosar_direccion\<close> and the loop that loads a block
  are written once for both.
\<close>

record CacheBase =
  tamano_bloque :: int
  num_lineas :: int
  tamano_memoria :: int
  accesos :: int
  aciertos :: int
  fallos :: int
  memoria_principal :: "int list"
  bits_offset :: nat
  bits_indice :: nat
  mascara_offset :: int
  mascara_indice :: int

record CacheMapeoDirecto = CacheBase +
  lineas :: "BloqueCache list"

record CacheAsociativaConjuntos = CacheBase +
  num_conjuntos :: int
  vias_por_conjunto :: int
  conjuntos :: "BloqueCache list list"
  contador_global :: int

text \<open>
  \<open>int(math.log2(n))\<close>: \<open>math.log2\<close> raises \<open>ValueError\<close> for \<open>n \<le> 0\<close>; for a positive
  integer the result is the floor of the binary logarithm (the floating point value is
  exact for the sizes a cache can have).
\<close>

fun log2_floor :: "nat \<Rightarrow> nat" where
  "log2_floor n = (if n < 2 then 0 else Suc (log2_floor (n div 2)))"

definition int_log2 :: "int \<Rightarrow> error + nat" where
  "int_log2 n = (if n \<le> 0 then Inl ValueError else Inr (log2_floor (nat n)))"

text \<open>
  The constructors. The main memory is filled with \<open>random.randint(0, 255)\<close>; the words
  drawn are the parameter \<open>rnd\<close>, so that a statement holds for every outcome.
  \<open>range(tamano_memoria)\<close> is empty for a negative size.
\<close>

definition CacheMapeoDirecto_init ::
  "int \<Rightarrow> int \<Rightarrow> int \<Rightarrow> (nat \<Rightarrow> int) \<Rightarrow> error + CacheMapeoDirecto" where
  "CacheMapeoDirecto_init tb nl tm rnd =
     bind_e (int_log2 tb) (\<lambda>bo.
     bind_e (int_log2 nl) (\<lambda>bi.
       Inr \<lparr>tamano_bloque = tb, num_lineas = nl, tamano_memoria = tm,
            accesos = 0, aciertos = 0, fallos = 0,
            memoria_principal = map rnd [0..<nat tm],
            bits_offset = bo, bits_indice = bi,
            mascara_offset = push_bit bo 1 - 1,
            mascara_indice = push_bit bo (push_bit bi 1 - 1),
            lineas = replicate (nat nl) (BloqueCache_init tb)\<rparr>))"

definition CacheAsociativaConjuntos_init ::
  "int \<Rightarrow> int \<Rightarrow> int \<Rightarrow> (nat \<Rightarrow> int) \<Rightarrow> error + CacheAsociativaConjuntos" where
  "CacheAsociativaConjuntos_init tb nc tm rnd =
     bind_e (int_log2 tb) (\<lambda>bo.
     bind_e (int_log2 nc) (\<lambda>bi.
       Inr \<lparr>tamano_bloque = tb, num_lineas = nc * 2, tamano_memoria = tm,
            accesos = 0, aciertos = 0, fallos = 0,
            memoria_principal = map rnd [0..<nat tm],
            bits_offset = bo, bits_indice = bi,
            mascara_offset = push_bit bo 1 - 1,
            mascara_indice = push_bit bo (push_bit bi 1 - 1),
            num_conjuntos = nc, vias_por_conjunto = 2,
            conjuntos = replicate (nat nc) (replicate 2 (BloqueCache_init tb)),
            contador_global = 0\<rparr>))"

text \<open>\<open>_desglosar_direccion\<close> returns the tag, the index and the offset of an address.\<close>

definition desglosar_direccion :: "'a CacheBase_scheme \<Rightarrow> int \<Rightarrow> int \<times> int \<times> int" where
  "desglosar_direccion c direccion =
     (drop_bit (bits_offset c + bits_indice c) direccion,
      drop_bit (bits_offset c) (direccion AND mascara_indice c),
      direccion AND mascara_offset c)"

text \<open>
  The loop \<open>for i in range(self.tamano_bloque)\<close> that copies a block from main memory:
  words at or past \<open>tamano_memoria\<close> are left as they are in the block.
\<close>

definition direccion_base :: "'a CacheBase_scheme \<Rightarrow> int \<Rightarrow> int \<Rightarrow> int" where
  "direccion_base c e i =
     push_bit (bits_offset c + bits_indice c) e OR push_bit (bits_offset c) i"

fun cargar_palabras ::
  "int list \<Rightarrow> int \<Rightarrow> int \<Rightarrow> nat list \<Rightarrow> int list \<Rightarrow> error + int list" where
  "cargar_palabras mem tm base [] ds = Inr ds"
| "cargar_palabras mem tm base (k # ks) ds =
     (if base + int k < tm then
        bind_e (py_get mem (base + int k)) (\<lambda>x.
        bind_e (py_set ds (int k) x) (\<lambda>ds'. cargar_palabras mem tm base ks ds'))
      else cargar_palabras mem tm base ks ds)"

definition cargar_bloque ::
  "'a CacheBase_scheme \<Rightarrow> int \<Rightarrow> int \<Rightarrow> BloqueCache \<Rightarrow> error + BloqueCache" where
  "cargar_bloque c e i b =
     bind_e (cargar_palabras (memoria_principal c) (tamano_memoria c) (direccion_base c e i)
               [0..<nat (tamano_bloque c)] (datos b))
       (\<lambda>ds. Inr (b\<lparr>datos := ds\<rparr>))"

text \<open>The write-through step: \<open>if direccion < self.tamano_memoria: ...\<close>.\<close>

definition escribir_memoria :: "'a CacheBase_scheme \<Rightarrow> int \<Rightarrow> int \<Rightarrow> error + int list" where
  "escribir_memoria c direccion dato =
     (if direccion < tamano_memoria c then py_set (memoria_principal c) direccion dato
      else Inr (memoria_principal c))"

text \<open>\<open>CacheMapeoDirecto.leer\<close> and \<open>CacheMapeoDirecto.escribir\<close>.\<close>

definition leer_directo :: "CacheMapeoDirecto \<Rightarrow> int \<Rightarrow> error + int \<times> CacheMapeoDirecto" where
  "leer_directo c0 direccion =
     (let c = c0\<lparr>accesos := accesos c0 + 1\<rparr> in
      case desglosar_direccion c direccion of
        (e, i, off) \<Rightarrow>
          bind_e (py_get (lineas c) i) (\<lambda>l.
            if valido l \<and> etiqueta l = e then
              bind_e (py_get (datos l) off) (\<lambda>x. Inr (x, c\<lparr>aciertos := aciertos c + 1\<rparr>))
            else
              bind_e (cargar_bloque c e i l) (\<lambda>l1.
              bind_e (py_set (lineas c) i (l1\<lparr>etiqueta := e, valido := True\<rparr>)) (\<lambda>ls.
              bind_e (py_get (datos l1) off) (\<lambda>x.
                Inr (x, c\<lparr>fallos := fallos c + 1, lineas := ls\<rparr>))))))"

definition escribir_directo :: "CacheMapeoDirecto \<Rightarrow> int \<Rightarrow> int \<Rightarrow> error + CacheMapeoDirecto" where
  "escribir_directo c0 direccion dato =
     (let c = c0\<lparr>accesos := accesos c0 + 1\<rparr> in
      case desglosar_direccion c direccion of
        (e, i, off) \<Rightarrow>
          bind_e (py_get (lineas c) i) (\<lambda>l.
          bind_e
            (if valido l \<and> etiqueta l = e then Inr (l, c\<lparr>aciertos := aciertos c + 1\<rparr>)
             else
               bind_e (cargar_bloque c e i l) (\<lambda>l1.
                 Inr (l1\<lparr>etiqueta := e, valido := True\<rparr>, c\<lparr>fallos := fallos c + 1\<rparr>)))
            (\<lambda>(l2, c2).
               bind_e (py_set (datos l2) off dato) (\<lambda>ds.
               bind_e (py_set (lineas c2) i (l2\<lparr>datos := ds\<rparr>)) (\<lambda>ls.
               bind_e (escribir_memoria c2 direccion dato) (\<lambda>mem.
                 Inr (c2\<lparr>lineas := ls, memoria_principal := mem\<rparr>)))))))"

text \<open>
  \<open>_encontrar_via\<close> walks the ways of a set in order and returns the first valid way with
  the tag; \<open>_seleccionar_via_reemplazo\<close> returns the first way that is not valid, else the
  way with the least \<open>contador_uso\<close> (the first of them on a tie).
\<close>

fun buscar_via :: "BloqueCache list list \<Rightarrow> int \<Rightarrow> int \<Rightarrow> nat list \<Rightarrow> error + nat option" where
  "buscar_via cs conjunto e [] = Inr None"
| "buscar_via cs conjunto e (i # rest) =
     bind_e (py_get cs conjunto) (\<lambda>ws.
     bind_e (py_get ws (int i)) (\<lambda>b.
       if valido b \<and> etiqueta b = e then Inr (Some i) else buscar_via cs conjunto e rest))"

definition encontrar_via :: "CacheAsociativaConjuntos \<Rightarrow> int \<Rightarrow> int \<Rightarrow> error + nat option" where
  "encontrar_via c conjunto e =
     buscar_via (conjuntos c) conjunto e [0..<nat (vias_por_conjunto c)]"

fun primera_invalida :: "BloqueCache list list \<Rightarrow> int \<Rightarrow> nat list \<Rightarrow> error + nat option" where
  "primera_invalida cs conjunto [] = Inr None"
| "primera_invalida cs conjunto (i # rest) =
     bind_e (py_get cs conjunto) (\<lambda>ws.
     bind_e (py_get ws (int i)) (\<lambda>b.
       if \<not> valido b then Inr (Some i) else primera_invalida cs conjunto rest))"

fun menos_usada ::
  "BloqueCache list list \<Rightarrow> int \<Rightarrow> nat list \<Rightarrow> nat \<Rightarrow> int \<Rightarrow> error + nat" where
  "menos_usada cs conjunto [] lru_via min_contador = Inr lru_via"
| "menos_usada cs conjunto (i # rest) lru_via min_contador =
     bind_e (py_get cs conjunto) (\<lambda>ws.
     bind_e (py_get ws (int i)) (\<lambda>b.
       if contador_uso b < min_contador then menos_usada cs conjunto rest i (contador_uso b)
       else menos_usada cs conjunto rest lru_via min_contador))"

definition seleccionar_via_reemplazo :: "CacheAsociativaConjuntos \<Rightarrow> int \<Rightarrow> error + nat" where
  "seleccionar_via_reemplazo c conjunto =
     bind_e (primera_invalida (conjuntos c) conjunto [0..<nat (vias_por_conjunto c)]) (\<lambda>r.
       case r of
         Some i \<Rightarrow> Inr i
       | None \<Rightarrow>
           bind_e (py_get (conjuntos c) conjunto) (\<lambda>ws.
           bind_e (py_get ws 0) (\<lambda>b0.
             menos_usada (conjuntos c) conjunto [1..<nat (vias_por_conjunto c)] 0
               (contador_uso b0))))"

text \<open>
  \<open>self.conjuntos[indice][via]\<close> read and written back: the blocks are objects that the
  source updates in place; no two entries of \<open>conjuntos\<close> share a block.
\<close>

definition leer_via :: "CacheAsociativaConjuntos \<Rightarrow> int \<Rightarrow> nat \<Rightarrow> error + BloqueCache" where
  "leer_via c conjunto via =
     bind_e (py_get (conjuntos c) conjunto) (\<lambda>ws. py_get ws (int via))"

definition guardar_via ::
  "CacheAsociativaConjuntos \<Rightarrow> int \<Rightarrow> nat \<Rightarrow> BloqueCache \<Rightarrow> error + CacheAsociativaConjuntos" where
  "guardar_via c conjunto via b =
     bind_e (py_get (conjuntos c) conjunto) (\<lambda>ws.
     bind_e (py_set ws (int via) b) (\<lambda>ws'.
     bind_e (py_set (conjuntos c) conjunto ws') (\<lambda>cs. Inr (c\<lparr>conjuntos := cs\<rparr>))))"

text \<open>\<open>CacheAsociativaConjuntos.leer\<close> and \<open>CacheAsociativaConjuntos.escribir\<close>.\<close>

definition leer_asociativa ::
  "CacheAsociativaConjuntos \<Rightarrow> int \<Rightarrow> error + int \<times> CacheAsociativaConjuntos" where
  "leer_asociativa c0 direccion =
     (let c = c0\<lparr>accesos := accesos c0 + 1, contador_global := contador_global c0 + 1\<rparr> in
      case desglosar_direccion c direccion of
        (e, i, off) \<Rightarrow>
          bind_e (encontrar_via c i e) (\<lambda>found.
            case found of
              Some via \<Rightarrow>
                bind_e (leer_via c i via) (\<lambda>b.
                bind_e (guardar_via (c\<lparr>aciertos := aciertos c + 1\<rparr>) i via
                          (b\<lparr>contador_uso := contador_global c\<rparr>)) (\<lambda>c1.
                bind_e (py_get (datos b) off) (\<lambda>x. Inr (x, c1))))
            | None \<Rightarrow>
                bind_e (seleccionar_via_reemplazo c i) (\<lambda>via.
                bind_e (leer_via c i via) (\<lambda>b.
                bind_e (cargar_bloque c e i b) (\<lambda>b1.
                bind_e (guardar_via (c\<lparr>fallos := fallos c + 1\<rparr>) i via
                          (b1\<lparr>etiqueta := e, contador_uso := contador_global c,
                              valido := True\<rparr>)) (\<lambda>c1.
                bind_e (py_get (datos b1) off) (\<lambda>x. Inr (x, c1))))))))"

definition escribir_asociativa ::
  "CacheAsociativaConjuntos \<Rightarrow> int \<Rightarrow> int \<Rightarrow> error + CacheAsociativaConjuntos" where
  "escribir_asociativa c0 direccion dato =
     (let c = c0\<lparr>accesos := accesos c0 + 1, contador_global := contador_global c0 + 1\<rparr> in
      case desglosar_direccion c direccion of
        (e, i, off) \<Rightarrow>
          bind_e (encontrar_via c i e) (\<lambda>found.
          bind_e
            (case found of
               Some via \<Rightarrow>
                 bind_e (leer_via c i via) (\<lambda>b.
                   Inr (via, b\<lparr>contador_uso := contador_global c\<rparr>,
                        c\<lparr>aciertos := aciertos c + 1\<rparr>))
             | None \<Rightarrow>
                 bind_e (seleccionar_via_reemplazo c i) (\<lambda>via.
                 bind_e (leer_via c i via) (\<lambda>b.
                 bind_e (cargar_bloque c e i b) (\<lambda>b1.
                   Inr (via, b1\<lparr>etiqueta := e, contador_uso := contador_global c,
                                 valido := True\<rparr>,
                        c\<lparr>fallos := fallos c + 1\<rparr>)))))
            (\<lambda>(via, b2, c2).
               bind_e (py_set (datos b2) off dato) (\<lambda>ds.
               bind_e (guardar_via c2 i via (b2\<lparr>datos := ds\<rparr>)) (\<lambda>c3.
               bind_e (escribir_memoria c3 direccion dato) (\<lambda>mem.
                 Inr (c3\<lparr>memoria_principal := mem\<rparr>)))))))"

text \<open>A sequence of reads, the values read dropped.\<close>

fun leer_todas_directo :: "CacheMapeoDirecto \<Rightarrow> int list \<Rightarrow> error + CacheMapeoDirecto" where
  "leer_todas_directo c [] = Inr c"
| "leer_todas_directo c (d # ds) =
     bind_e (leer_directo c d) (\<lambda>(x, c'). leer_todas_directo c' ds)"

fun leer_todas :: "CacheAsociativaConjuntos \<Rightarrow> int list \<Rightarrow> error + CacheAsociativaConjuntos" where
  "leer_todas c [] = Inr c"
| "leer_todas c (d # ds) = bind_e (leer_asociativa c d) (\<lambda>(x, c'). leer_todas c' ds)"

section \<open>A cache of one set with blocks of one word\<close>

text \<open>
  The states of the 2-way cache built with \<open>tamano_bloque = 1\<close> and \<open>num_conjuntos = 1\<close>:
  \<open>n\<close> accesses, \<open>h\<close> hits, \<open>m\<close> misses and the two ways \<open>w0\<close>, \<open>w1\<close>. \<open>via_de e d n\<close> is a
  valid way with tag \<open>e\<close>, word \<open>d\<close> and counter \<open>n\<close>; \<open>dato_cargado\<close> is the word a miss at
  address \<open>a\<close> leaves in a way that held \<open>old\<close>.
\<close>

definition via_de :: "int \<Rightarrow> int \<Rightarrow> int \<Rightarrow> BloqueCache" where
  "via_de e d n = \<lparr>etiqueta = e, datos = [d], valido = True, contador_uso = n\<rparr>"

definition cache2 ::
  "int \<Rightarrow> (nat \<Rightarrow> int) \<Rightarrow> int \<Rightarrow> int \<Rightarrow> int \<Rightarrow> BloqueCache \<Rightarrow> BloqueCache \<Rightarrow>
   CacheAsociativaConjuntos" where
  "cache2 tm rnd n h m w0 w1 =
     \<lparr>tamano_bloque = 1, num_lineas = 2, tamano_memoria = tm,
      accesos = n, aciertos = h, fallos = m,
      memoria_principal = map rnd [0..<nat tm],
      bits_offset = 0, bits_indice = 0, mascara_offset = 0, mascara_indice = 0,
      num_conjuntos = 1, vias_por_conjunto = 2,
      conjuntos = [[w0, w1]], contador_global = n\<rparr>"

definition dato_cargado :: "int \<Rightarrow> (nat \<Rightarrow> int) \<Rightarrow> int \<Rightarrow> int \<Rightarrow> int" where
  "dato_cargado tm rnd a old = (if a < tm then rnd (nat a) else old)"

text \<open>A memory content for the examples: word \<open>n\<close> holds \<open>3 n\<close>.\<close>

definition triple :: "nat \<Rightarrow> int" where
  "triple n = int n * 3"

section \<open>Well-formed caches\<close>

text \<open>
  What the constructors establish and reads and writes keep: the memory list has at
  least \<open>tamano_memoria\<close> words, the masks are those of the bit counts, a block has
  \<open>tamano_bloque\<close> words and at least \<open>2 ^ bits_offset\<close> of them, there are at least
  \<open>2 ^ bits_indice\<close> lines (sets), and a set has two ways.
\<close>

definition cache_ok :: "'a CacheBase_scheme \<Rightarrow> bool" where
  "cache_ok c =
     (0 \<le> tamano_memoria c \<and> tamano_memoria c \<le> int (length (memoria_principal c)) \<and>
      mascara_offset c = push_bit (bits_offset c) 1 - 1 \<and>
      mascara_indice c = push_bit (bits_offset c) (push_bit (bits_indice c) 1 - 1) \<and>
      2 ^ bits_offset c \<le> tamano_bloque c)"

definition bloque_ok :: "'a CacheBase_scheme \<Rightarrow> BloqueCache \<Rightarrow> bool" where
  "bloque_ok c b = (int (length (datos b)) = tamano_bloque c)"

definition directo_ok :: "CacheMapeoDirecto \<Rightarrow> bool" where
  "directo_ok c =
     (cache_ok c \<and> 2 ^ bits_indice c \<le> int (length (lineas c)) \<and> list_all (bloque_ok c) (lineas c))"

definition asociativa_ok :: "CacheAsociativaConjuntos \<Rightarrow> bool" where
  "asociativa_ok c =
     (cache_ok c \<and> 2 ^ bits_indice c \<le> int (length (conjuntos c)) \<and> vias_por_conjunto c = 2 \<and>
      list_all (\<lambda>ws. length ws = 2 \<and> list_all (bloque_ok c) ws) (conjuntos c))"

text \<open>Two caches with the same sizes, bit counts and masks.\<close>

definition misma_forma :: "'a CacheBase_scheme \<Rightarrow> 'b CacheBase_scheme \<Rightarrow> bool" where
  "misma_forma c c' =
     (tamano_bloque c' = tamano_bloque c \<and> tamano_memoria c' = tamano_memoria c \<and>
      bits_offset c' = bits_offset c \<and> bits_indice c' = bits_indice c \<and>
      mascara_offset c' = mascara_offset c \<and> mascara_indice c' = mascara_indice c \<and>
      length (memoria_principal c') = length (memoria_principal c))"

text \<open>
  The way that \<open>escribir\<close> (and \<open>leer\<close>) selects in set \<open>i\<close> for the tag \<open>e\<close>: the way
  found by \<open>_encontrar_via\<close>, else the one chosen by \<open>_seleccionar_via_reemplazo\<close>.
\<close>

definition via_seleccionada :: "CacheAsociativaConjuntos \<Rightarrow> int \<Rightarrow> int \<Rightarrow> error + nat" where
  "via_seleccionada c i e =
     bind_e (encontrar_via c i e) (\<lambda>found.
       case found of Some via \<Rightarrow> Inr via | None \<Rightarrow> seleccionar_via_reemplazo c i)"

section \<open>Properties of the hazard unit\<close>

lemma forward_rd_SomeD:
  "forward_rd l = Some d \<Longrightarrow>
     valid l \<and> d \<noteq> 0 \<and> (\<exists>i. instruction l = Some i \<and> writes_register (op i) \<and> rd i = Some d)"
  by (auto simp: forward_rd_def split: if_splits option.splits)

lemma signal_ex_mem_instruction:
  assumes "get_forwarding_signals idex exmem memwb = (f1, f2)"
    and "f1 = Fwd_ex_mem \<or> f2 = Fwd_ex_mem"
  shows "\<exists>i. instruction exmem = Some i"
  using assms
  by (auto simp: get_forwarding_signals_def Let_def split: if_splits option.splits
           dest: forward_rd_SomeD)

text \<open>
  C5. The stall query answers true exactly for the load-use hazard: IF/ID valid, ID/EX
  valid, the ID/EX instruction a LOAD whose \<open>rd\<close> field is nonzero and equals the \<open>rs1\<close>
  or the \<open>rs2\<close> field declared on the IF/ID instruction; it answers false whenever IF/ID
  is invalid. Register indices are non-negative in the data model (the source uses
  \<open>-1\<close> for a missing source register).
\<close>

theorem detect_hazards_load_use:
  assumes "\<And>j d. instruction idex = Some j \<Longrightarrow> rd j = Some d \<Longrightarrow> 0 \<le> d"
  shows "(detect_hazards ifid idex exmem \<longleftrightarrow>
           valid ifid \<and> valid idex \<and>
           (\<exists>i j d. instruction ifid = Some i \<and> instruction idex = Some j \<and>
                    op j = LOAD \<and> rd j = Some d \<and> d \<noteq> 0 \<and>
                    (rs1 i = Some d \<or> rs2 i = Some d)))
         \<and> (\<not> valid ifid \<longrightarrow> \<not> detect_hazards ifid idex exmem)"
proof -
  have inv: "\<not> valid ifid \<Longrightarrow> \<not> detect_hazards ifid idex exmem"
    by (simp add: detect_hazards_def)
  have "detect_hazards ifid idex exmem \<longleftrightarrow>
          valid ifid \<and> valid idex \<and>
          (\<exists>i j d. instruction ifid = Some i \<and> instruction idex = Some j \<and>
                   op j = LOAD \<and> rd j = Some d \<and> d \<noteq> 0 \<and>
                   (rs1 i = Some d \<or> rs2 i = Some d))"
  proof (cases "instruction ifid")
    case None
    then show ?thesis by (simp add: detect_hazards_def)
  next
    case (Some i)
    note I = this
    show ?thesis
    proof (cases "instruction idex")
      case None
      with I show ?thesis by (simp add: detect_hazards_def Let_def)
    next
      case (Some j)
      note J = this
      show ?thesis
      proof (cases "rd j")
        case None
        with I J show ?thesis by (simp add: detect_hazards_def Let_def)
      next
        case (Some d)
        with J assms have "0 \<le> d" by blast
        with I J Some show ?thesis
          by (cases "rs1 i"; cases "rs2 i")
             (auto simp: detect_hazards_def Let_def get_or_def)
      qed
    qed
  qed
  with inv show ?thesis by blast
qed

theorem detect_hazards_load_use_witness:
  "detect_hazards ex_if_id ex_id_ex ex_ex_mem
   \<and> \<not> detect_hazards (ex_if_id\<lparr>valid := False\<rparr>) ex_id_ex ex_ex_mem"
proof -
  have h: "\<And>j d. instruction ex_id_ex = Some j \<Longrightarrow> rd j = Some d \<Longrightarrow> 0 \<le> d"
    by (auto simp: ex_id_ex_def ex_load_r8_def)
  have "detect_hazards ex_if_id ex_id_ex ex_ex_mem"
    using detect_hazards_load_use [of ex_id_ex ex_if_id ex_ex_mem, OF h]
    by (simp add: ex_if_id_def ex_id_ex_def ex_load_r8_def ex_add_r9_def)
  moreover have "\<not> detect_hazards (ex_if_id\<lparr>valid := False\<rparr>) ex_id_ex ex_ex_mem"
    using detect_hazards_load_use [of ex_id_ex "ex_if_id\<lparr>valid := False\<rparr>" ex_ex_mem, OF h]
    by simp
  ultimately show ?thesis by simp
qed

text \<open>
  C6. When the EX/MEM instruction is a LOAD, \<open>apply_forwarding\<close> never takes the value of
  a source from EX/MEM's \<open>alu_result\<close>: a source whose forwarding signal is \<open>ex_mem\<close>
  (EX/MEM valid, \<open>rd\<close> nonzero and equal to the source index) keeps the value latched in
  ID/EX, also when MEM/WB writes the same register; any other source is the latched
  value or MEM/WB's result, as its signal says.
\<close>

theorem apply_forwarding_load_suppressed:
  assumes "instruction exmem = Some i" and "op i = LOAD"
    and "get_forwarding_signals idex exmem memwb = (f1, f2)"
  shows "(f1 = Fwd_ex_mem \<longrightarrow> fst (apply_forwarding idex exmem memwb) = rs1_value idex)
       \<and> (f2 = Fwd_ex_mem \<longrightarrow> snd (apply_forwarding idex exmem memwb) = rs2_value idex)
       \<and> fst (apply_forwarding idex exmem memwb) =
           (if f1 = Fwd_mem_wb then result memwb else rs1_value idex)
       \<and> snd (apply_forwarding idex exmem memwb) =
           (if f2 = Fwd_mem_wb then result memwb else rs2_value idex)
       \<and> (valid idex \<and> valid exmem \<longrightarrow>
            (\<forall>j d. instruction idex = Some j \<and> rd i = Some d \<and> d \<noteq> 0 \<longrightarrow>
               (rs1 j = Some d \<longrightarrow> f1 = Fwd_ex_mem) \<and> (rs2 j = Some d \<longrightarrow> f2 = Fwd_ex_mem)))"
proof -
  have v1: "fst (apply_forwarding idex exmem memwb) =
              (if f1 = Fwd_mem_wb then result memwb else rs1_value idex)"
    using assms by (cases f1) (simp_all add: apply_forwarding_def forward_value_def)
  have v2: "snd (apply_forwarding idex exmem memwb) =
              (if f2 = Fwd_mem_wb then result memwb else rs2_value idex)"
    using assms by (cases f2) (simp_all add: apply_forwarding_def forward_value_def)
  have sig: "valid idex \<and> valid exmem \<longrightarrow>
            (\<forall>j d. instruction idex = Some j \<and> rd i = Some d \<and> d \<noteq> 0 \<longrightarrow>
               (rs1 j = Some d \<longrightarrow> f1 = Fwd_ex_mem) \<and> (rs2 j = Some d \<longrightarrow> f2 = Fwd_ex_mem))"
    using assms
    by (auto simp: get_forwarding_signals_def forward_rd_def writes_register_def Let_def
                   get_or_def)
  from v1 v2 sig show ?thesis by simp
qed

theorem apply_forwarding_load_suppressed_witness:
  "apply_forwarding
     \<lparr>valid = True, instruction = Some ex_sub_r3, rs1_value = 11, rs2_value = 22, imm = 0\<rparr>
     \<lparr>valid = True, instruction = Some ex_load_r3, alu_result = 7, store_value = 0\<rparr>
     \<lparr>valid = True, instruction = Some ex_add_r3, result = 99\<rparr> = (11, 22)"
  using apply_forwarding_load_suppressed
    [of "\<lparr>valid = True, instruction = Some ex_load_r3, alu_result = 7, store_value = 0\<rparr>"
        ex_load_r3
        "\<lparr>valid = True, instruction = Some ex_sub_r3, rs1_value = 11, rs2_value = 22, imm = 0\<rparr>"
        "\<lparr>valid = True, instruction = Some ex_add_r3, result = 99\<rparr>"
        Fwd_ex_mem Fwd_none]
  by (simp add: prod_eq_iff get_forwarding_signals_def forward_rd_def writes_register_def
                get_or_def ex_load_r3_def ex_add_r3_def ex_sub_r3_def)

section \<open>Encoding and decoding\<close>

lemma bit_bounded: "take_bit k (a::int) = a \<Longrightarrow> bit a n \<Longrightarrow> n < k"
  by (metis bit_take_bit_iff)

lemma m5: "(0x1F::int) = mask 5" and m6: "(0x3F::int) = mask 6"
  and m16: "(0xFFFF::int) = mask 16" and m21: "(0x1FFFFF::int) = mask 21"
  and m26: "(0x3FFFFFF::int) = mask 26"
  by (simp_all add: mask_eq_exp_minus_1)

lemma fields_R:
  fixes a b d opc :: int
  assumes "take_bit 5 a = a" "take_bit 5 b = b" "take_bit 5 d = d" "take_bit 6 opc = opc"
  defines "w \<equiv> push_bit 26 opc OR push_bit 21 a OR push_bit 16 b OR push_bit 11 d OR 0"
  shows "drop_bit 26 w AND 0x3F = opc" "drop_bit 21 w AND 0x1F = a"
    "drop_bit 16 w AND 0x1F = b" "drop_bit 11 w AND 0x1F = d"
proof -
  note bd = bit_bounded[OF assms(1)] bit_bounded[OF assms(2)] bit_bounded[OF assms(3)]
    bit_bounded[OF assms(4)]
  show "drop_bit 26 w AND 0x3F = opc"
    unfolding m6 w_def
    by (rule bit_eqI) (auto simp: bit_simps dest: bd)
  show "drop_bit 21 w AND 0x1F = a"
    unfolding m5 w_def
    by (rule bit_eqI) (auto simp: bit_simps dest: bd)
  show "drop_bit 16 w AND 0x1F = b"
    unfolding m5 w_def
    by (rule bit_eqI) (auto simp: bit_simps dest: bd)
  show "drop_bit 11 w AND 0x1F = d"
    unfolding m5 w_def
    by (rule bit_eqI) (auto simp: bit_simps dest: bd)
qed

lemma sign_bit_clear:
  fixes m :: int
  assumes "take_bit k m = m"
  shows "m AND 2 ^ k = 0"
  by (rule bit_eqI) (auto simp: bit_simps dest: bit_bounded[OF assms])

lemma fields_I:
  fixes a d m opc :: int
  assumes "take_bit 5 a = a" "take_bit 5 d = d" "take_bit 15 m = m" "take_bit 6 opc = opc"
  defines "w \<equiv> push_bit 26 opc OR push_bit 21 a OR push_bit 16 d OR (m AND 0xFFFF)"
  shows "drop_bit 26 w AND 0x3F = opc" "drop_bit 21 w AND 0x1F = a"
    "drop_bit 16 w AND 0x1F = d" "sign_extend 0x8000 0xFFFF0000 (w AND 0xFFFF) = m"
proof -
  note bd = bit_bounded[OF assms(1)] bit_bounded[OF assms(2)] bit_bounded[OF assms(3)]
    bit_bounded[OF assms(4)]
  show "drop_bit 26 w AND 0x3F = opc"
    unfolding m6 m16 w_def
    by (rule bit_eqI) (auto simp: bit_simps dest: bd)
  show "drop_bit 21 w AND 0x1F = a"
    unfolding m5 m16 w_def
    by (rule bit_eqI) (auto simp: bit_simps dest: bd)
  show "drop_bit 16 w AND 0x1F = d"
    unfolding m5 m16 w_def
    by (rule bit_eqI) (auto simp: bit_simps dest: bd)
  have "w AND 0xFFFF = m"
    unfolding m16 w_def
    by (rule bit_eqI) (auto simp: bit_simps dest: bd)
  then show "sign_extend 0x8000 0xFFFF0000 (w AND 0xFFFF) = m"
    using sign_bit_clear[OF assms(3)] by (simp add: sign_extend_def)
qed

lemma fields_S:
  fixes a m opc :: int
  assumes "take_bit 5 a = a" "take_bit 20 m = m" "take_bit 6 opc = opc"
  defines "w \<equiv> push_bit 26 opc OR push_bit 21 a OR (m AND 0x1FFFFF)"
  shows "drop_bit 26 w AND 0x3F = opc" "drop_bit 21 w AND 0x1F = a"
    "sign_extend 0x100000 0xFFE00000 (w AND 0x1FFFFF) = m"
proof -
  note bd = bit_bounded[OF assms(1)] bit_bounded[OF assms(2)] bit_bounded[OF assms(3)]
  show "drop_bit 26 w AND 0x3F = opc"
    unfolding m6 m21 w_def
    by (rule bit_eqI) (auto simp: bit_simps dest: bd)
  show "drop_bit 21 w AND 0x1F = a"
    unfolding m5 m21 w_def
    by (rule bit_eqI) (auto simp: bit_simps dest: bd)
  have "w AND 0x1FFFFF = m"
    unfolding m21 w_def
    by (rule bit_eqI) (auto simp: bit_simps dest: bd)
  then show "sign_extend 0x100000 0xFFE00000 (w AND 0x1FFFFF) = m"
    using sign_bit_clear[OF assms(2)] by (simp add: sign_extend_def)
qed

lemma fields_J:
  fixes m opc :: int
  assumes "take_bit 25 m = m" "take_bit 6 opc = opc"
  defines "w \<equiv> push_bit 26 opc OR (m AND 0x3FFFFFF)"
  shows "drop_bit 26 w AND 0x3F = opc"
    "sign_extend 0x2000000 0xFC000000 (w AND 0x3FFFFFF) = m"
proof -
  note bd = bit_bounded[OF assms(1)] bit_bounded[OF assms(2)]
  show "drop_bit 26 w AND 0x3F = opc"
    unfolding m6 m26 w_def
    by (rule bit_eqI) (auto simp: bit_simps dest: bd)
  have "w AND 0x3FFFFFF = m"
    unfolding m26 w_def
    by (rule bit_eqI) (auto simp: bit_simps dest: bd)
  then show "sign_extend 0x2000000 0xFC000000 (w AND 0x3FFFFFF) = m"
    using sign_bit_clear[OF assms(1)] by (simp add: sign_extend_def)
qed

lemma reg_okD: "reg_ok f \<Longrightarrow> \<exists>r. f = Some r \<and> take_bit 5 r = r"
  by (auto simp: reg_ok_def take_bit_int_eq_self_iff split: option.splits)

lemma imm_okD: "imm_ok (Suc k) f \<Longrightarrow> \<exists>m. f = Some m \<and> take_bit k m = m"
  by (auto simp: imm_ok_def take_bit_int_eq_self_iff split: option.splits)

lemma opc6: "take_bit 6 (0::int) = 0" "take_bit 6 (1::int) = 1" "take_bit 6 (2::int) = 2"
  "take_bit 6 (3::int) = 3" "take_bit 6 (4::int) = 4" "take_bit 6 (5::int) = 5"
  "take_bit 6 (6::int) = 6"
  by (simp_all add: take_bit_int_eq_self_iff)

text \<open>
  Where the immediate is not negative and below the sign bit of its field, the decoder
  returns the instruction that was encoded (for an instruction that has exactly the
  fields the decoder emits for its format).
\<close>

lemma decode_encode_nonnegative:
  assumes "encodable i"
  shows "decode_instruction (encode_instruction i) = i"
proof (cases "op i")
  case ADD
  with assms obtain a b d where f: "rs1 i = Some a" "take_bit 5 a = a" "rs2 i = Some b"
      "take_bit 5 b = b" "rd i = Some d" "take_bit 5 d = d"
      "rs i = None" "addr i = None" "target i = None" "immediate i = None"
    by (auto simp: encodable_def FORMATS_def dest!: reg_okD)
  from fields_R[OF f(2,4,6) opc6(1)] ADD f show ?thesis
    by (simp add: encode_instruction_def decode_instruction_def OPCODES_def FORMATS_def
          get_or_def no_fields_def)
next
  case SUB
  with assms obtain a b d where f: "rs1 i = Some a" "take_bit 5 a = a" "rs2 i = Some b"
      "take_bit 5 b = b" "rd i = Some d" "take_bit 5 d = d"
      "rs i = None" "addr i = None" "target i = None" "immediate i = None"
    by (auto simp: encodable_def FORMATS_def dest!: reg_okD)
  from fields_R[OF f(2,4,6) opc6(2)] SUB f show ?thesis
    by (simp add: encode_instruction_def decode_instruction_def OPCODES_def FORMATS_def
          get_or_def no_fields_def)
next
  case MUL
  with assms obtain a b d where f: "rs1 i = Some a" "take_bit 5 a = a" "rs2 i = Some b"
      "take_bit 5 b = b" "rd i = Some d" "take_bit 5 d = d"
      "rs i = None" "addr i = None" "target i = None" "immediate i = None"
    by (auto simp: encodable_def FORMATS_def dest!: reg_okD)
  from fields_R[OF f(2,4,6) opc6(3)] MUL f show ?thesis
    by (simp add: encode_instruction_def decode_instruction_def OPCODES_def FORMATS_def
          get_or_def no_fields_def)
next
  case LOAD
  with assms obtain a d m where f: "rs1 i = Some a" "take_bit 5 a = a" "rd i = Some d"
      "take_bit 5 d = d" "addr i = Some m" "take_bit 15 m = m"
      "rs2 i = None" "rs i = None" "target i = None" "immediate i = None"
    by (auto simp: encodable_def FORMATS_def eval_nat_numeral dest!: reg_okD imm_okD)
  from fields_I[OF f(2,4,6) opc6(4)] LOAD f show ?thesis
    by (simp add: encode_instruction_def decode_instruction_def OPCODES_def FORMATS_def
          get_or_def no_fields_def)
next
  case STORE
  with assms obtain a m where f: "rs i = Some a" "take_bit 5 a = a"
      "addr i = Some m" "take_bit 20 m = m"
      "rd i = None" "rs1 i = None" "rs2 i = None" "target i = None" "immediate i = None"
    by (auto simp: encodable_def FORMATS_def eval_nat_numeral dest!: reg_okD imm_okD)
  from fields_S[OF f(2,4) opc6(5)] STORE f show ?thesis
    by (simp add: encode_instruction_def decode_instruction_def OPCODES_def FORMATS_def
          get_or_def no_fields_def)
next
  case BEQ
  with assms obtain a b m where f: "rs1 i = Some a" "take_bit 5 a = a" "rs2 i = Some b"
      "take_bit 5 b = b" "target i = Some m" "take_bit 15 m = m"
      "rd i = None" "rs i = None" "addr i = None" "immediate i = None"
    by (auto simp: encodable_def FORMATS_def eval_nat_numeral dest!: reg_okD imm_okD)
  from fields_I[OF f(2,4,6) opc6(6)] BEQ f show ?thesis
    by (simp add: encode_instruction_def decode_instruction_def OPCODES_def FORMATS_def
          get_or_def no_fields_def)
next
  case JUMP
  with assms obtain m where f: "target i = Some m" "take_bit 25 m = m"
      "rd i = None" "rs1 i = None" "rs2 i = None" "rs i = None" "addr i = None"
      "immediate i = None"
    by (auto simp: encodable_def FORMATS_def eval_nat_numeral dest!: reg_okD imm_okD)
  from fields_J[OF f(2) opc6(7)] JUMP f show ?thesis
    by (simp add: encode_instruction_def decode_instruction_def OPCODES_def FORMATS_def
          get_or_def no_fields_def)
next
  case NOP
  with assms show ?thesis by (simp add: encodable_def FORMATS_def)
qed

lemma decode_encode_load_r10:
  "encodable load_r10 \<and> decode_instruction (encode_instruction load_r10) = load_r10"
proof -
  have e: "encodable load_r10"
    by (simp add: encodable_def load_r10_def no_fields_def FORMATS_def reg_ok_def imm_ok_def)
  from decode_encode_nonnegative [OF e] e show ?thesis by simp
qed

lemma negative_bits:
  fixes m :: int
  assumes "- (2 ^ k) \<le> m" "m < 0" "k \<le> n"
  shows "bit m n"
proof -
  have "0 \<le> NOT m" "NOT m < 2 ^ k" using assms(1,2) by (simp_all add: not_int_def)
  then have "take_bit k (NOT m) = NOT m" by (simp add: take_bit_int_eq_self_iff)
  from bit_bounded[OF this, of n] assms(3) have "\<not> bit (NOT m) n" by auto
  then show ?thesis by (simp add: bit_not_int_iff)
qed

lemma take_bit_32_negative:
  fixes m :: int
  assumes "- (2 ^ 32) \<le> m" "m < 0"
  shows "take_bit 32 m = m + 2 ^ 32"
proof -
  have "m mod 2 ^ 32 = m + 2 ^ 32"
    by (rule int_mod_pos_eq[where q = "- 1"]) (use assms in simp_all)
  then show ?thesis by (simp add: take_bit_eq_mod)
qed

lemma h16: "(0xFFFF0000::int) = push_bit 16 (mask 16)"
  and h21: "(0xFFE00000::int) = push_bit 21 (mask 11)"
  and h26: "(0xFC000000::int) = push_bit 26 (mask 6)"
  by (simp_all add: mask_eq_exp_minus_1 push_bit_eq_mult)

lemma sign_extend_16_negative:
  fixes m :: int
  assumes "- (2 ^ 15) \<le> m" "m < 0"
  shows "sign_extend 0x8000 0xFFFF0000 (m AND 0xFFFF) = m + 2 ^ 32"
proof -
  note b = negative_bits[OF assms]
  have "bit ((m AND mask 16) AND 2 ^ 15) 15" using b[of 15] by (simp add: bit_simps)
  then have nz: "(m AND 0xFFFF) AND 0x8000 \<noteq> 0" unfolding m16 by auto
  have "m AND mask 16 OR push_bit 16 (mask 16) = take_bit 32 m"
    by (rule bit_eqI) (use b in \<open>auto simp: bit_simps\<close>)
  also have "\<dots> = m + 2 ^ 32" using assms by (intro take_bit_32_negative) simp_all
  finally show ?thesis using nz unfolding sign_extend_def h16 m16 by simp
qed

lemma sign_extend_21_negative:
  fixes m :: int
  assumes "- (2 ^ 20) \<le> m" "m < 0"
  shows "sign_extend 0x100000 0xFFE00000 (m AND 0x1FFFFF) = m + 2 ^ 32"
proof -
  note b = negative_bits[OF assms]
  have "bit ((m AND mask 21) AND 2 ^ 20) 20" using b[of 20] by (simp add: bit_simps)
  then have nz: "(m AND 0x1FFFFF) AND 0x100000 \<noteq> 0" unfolding m21 by auto
  have "m AND mask 21 OR push_bit 21 (mask 11) = take_bit 32 m"
    by (rule bit_eqI) (use b in \<open>auto simp: bit_simps\<close>)
  also have "\<dots> = m + 2 ^ 32" using assms by (intro take_bit_32_negative) simp_all
  finally show ?thesis using nz unfolding sign_extend_def h21 m21 by simp
qed

lemma sign_extend_26_negative:
  fixes m :: int
  assumes "- (2 ^ 25) \<le> m" "m < 0"
  shows "sign_extend 0x2000000 0xFC000000 (m AND 0x3FFFFFF) = m + 2 ^ 32"
proof -
  note b = negative_bits[OF assms]
  have "bit ((m AND mask 26) AND 2 ^ 25) 25" using b[of 25] by (simp add: bit_simps)
  then have nz: "(m AND 0x3FFFFFF) AND 0x2000000 \<noteq> 0" unfolding m26 by auto
  have "m AND mask 26 OR push_bit 26 (mask 6) = take_bit 32 m"
    by (rule bit_eqI) (use b in \<open>auto simp: bit_simps\<close>)
  also have "\<dots> = m + 2 ^ 32" using assms by (intro take_bit_32_negative) simp_all
  finally show ?thesis using nz unfolding sign_extend_def h26 m26 by simp
qed

lemma word_I:
  fixes a d m opc :: int
  assumes "take_bit 5 a = a" "take_bit 5 d = d" "take_bit 6 opc = opc"
  defines "w \<equiv> push_bit 26 opc OR push_bit 21 a OR push_bit 16 d OR (m AND 0xFFFF)"
  shows "drop_bit 26 w AND 0x3F = opc" "w AND 0xFFFF = m AND 0xFFFF"
proof -
  note bd = bit_bounded[OF assms(1)] bit_bounded[OF assms(2)] bit_bounded[OF assms(3)]
  show "drop_bit 26 w AND 0x3F = opc"
    unfolding m6 m16 w_def
    by (rule bit_eqI) (auto simp: bit_simps dest: bd)
  show "w AND 0xFFFF = m AND 0xFFFF"
    unfolding m16 w_def
    by (rule bit_eqI) (auto simp: bit_simps dest: bd)
qed

lemma word_S:
  fixes a m opc :: int
  assumes "take_bit 5 a = a" "take_bit 6 opc = opc"
  defines "w \<equiv> push_bit 26 opc OR push_bit 21 a OR (m AND 0x1FFFFF)"
  shows "drop_bit 26 w AND 0x3F = opc" "w AND 0x1FFFFF = m AND 0x1FFFFF"
proof -
  note bd = bit_bounded[OF assms(1)] bit_bounded[OF assms(2)]
  show "drop_bit 26 w AND 0x3F = opc"
    unfolding m6 m21 w_def
    by (rule bit_eqI) (auto simp: bit_simps dest: bd)
  show "w AND 0x1FFFFF = m AND 0x1FFFFF"
    unfolding m21 w_def
    by (rule bit_eqI) (auto simp: bit_simps dest: bd)
qed

lemma word_J:
  fixes m opc :: int
  assumes "take_bit 6 opc = opc"
  defines "w \<equiv> push_bit 26 opc OR (m AND 0x3FFFFFF)"
  shows "drop_bit 26 w AND 0x3F = opc" "w AND 0x3FFFFFF = m AND 0x3FFFFFF"
proof -
  note bd = bit_bounded[OF assms(1)]
  show "drop_bit 26 w AND 0x3F = opc"
    unfolding m6 m26 w_def
    by (rule bit_eqI) (auto simp: bit_simps dest: bd)
  show "w AND 0x3FFFFFF = m AND 0x3FFFFFF"
    unfolding m26 w_def
    by (rule bit_eqI) (auto simp: bit_simps dest: bd)
qed

lemma reg_field_okD: "reg_field_ok f \<Longrightarrow> take_bit 5 (get_or f 0) = get_or f 0"
  by (simp add: reg_field_ok_def take_bit_int_eq_self_iff)

text \<open>
  C8. \<open>decode_instruction\<close> extends the sign by or-ing the high bits \<open>0xFFFF0000\<close>
  (\<open>0xFFE00000\<close>, \<open>0xFC000000\<close>) into the field, which on Python's unbounded integers gives
  a non-negative number. So a negative immediate does not come back: for every instruction
  of the formats I, S, B and J whose register indices lie in 0..31 and whose \<open>addr\<close> or
  \<open>target\<close> \<open>m\<close> is negative and fits the field in two's complement, decoding the encoded
  word gives the same operation with the immediate \<open>m + 2^32\<close>, an instruction other than
  the one encoded.
\<close>

theorem decode_negative_immediate:
  assumes "negative_immediate i m"
  shows "op (decode_instruction (encode_instruction i)) = op i \<and>
         imm_field (decode_instruction (encode_instruction i)) = Some (m + 2 ^ 32) \<and>
         decode_instruction (encode_instruction i) \<noteq> i"
proof -
  from assms have r: "take_bit 5 (get_or (rd i) 0) = get_or (rd i) 0"
    "take_bit 5 (get_or (rs1 i) 0) = get_or (rs1 i) 0"
    "take_bit 5 (get_or (rs2 i) 0) = get_or (rs2 i) 0"
    "take_bit 5 (get_or (rs i) 0) = get_or (rs i) 0"
    by (simp_all add: negative_immediate_def reg_field_okD)
  from assms have m: "imm_field i = Some m" "m < 0" "op i \<noteq> NOP"
    "- (2 ^ (imm_bits (FORMATS (op i)) - 1)) \<le> m"
    by (simp_all add: negative_immediate_def)
  have main: "op (decode_instruction (encode_instruction i)) = op i \<and>
         imm_field (decode_instruction (encode_instruction i)) = Some (m + 2 ^ 32)"
  proof (cases "op i")
    case LOAD
    with m have a: "addr i = Some m" "- (2 ^ 15) \<le> m"
      by (simp_all add: imm_field_def imm_bits_def FORMATS_def)
    from word_I[OF r(2,1) opc6(4), of m] sign_extend_16_negative[OF a(2) m(2)] LOAD a
    show ?thesis
      by (simp add: encode_instruction_def decode_instruction_def OPCODES_def FORMATS_def
          get_or_def no_fields_def imm_field_def)
  next
    case STORE
    with m have a: "addr i = Some m" "- (2 ^ 20) \<le> m"
      by (simp_all add: imm_field_def imm_bits_def FORMATS_def)
    from word_S[OF r(4) opc6(5), of m] sign_extend_21_negative[OF a(2) m(2)] STORE a
    show ?thesis
      by (simp add: encode_instruction_def decode_instruction_def OPCODES_def FORMATS_def
          get_or_def no_fields_def imm_field_def)
  next
    case BEQ
    with m have a: "target i = Some m" "- (2 ^ 15) \<le> m"
      by (simp_all add: imm_field_def imm_bits_def FORMATS_def)
    from word_I[OF r(2,3) opc6(6), of m] sign_extend_16_negative[OF a(2) m(2)] BEQ a
    show ?thesis
      by (simp add: encode_instruction_def decode_instruction_def OPCODES_def FORMATS_def
          get_or_def no_fields_def imm_field_def)
  next
    case JUMP
    with m have a: "target i = Some m" "- (2 ^ 25) \<le> m"
      by (simp_all add: imm_field_def imm_bits_def FORMATS_def)
    from word_J[OF opc6(7), of m] sign_extend_26_negative[OF a(2) m(2)] JUMP a
    show ?thesis
      by (simp add: encode_instruction_def decode_instruction_def OPCODES_def FORMATS_def
          get_or_def no_fields_def imm_field_def)
  qed (use m in \<open>simp_all add: imm_field_def FORMATS_def\<close>)
  moreover have "decode_instruction (encode_instruction i) \<noteq> i"
  proof
    assume "decode_instruction (encode_instruction i) = i"
    with main m(1) show False by simp
  qed
  ultimately show ?thesis by simp
qed

theorem decode_negative_immediate_witness:
  "negative_immediate load_neg (- 1) \<and>
   addr (decode_instruction (encode_instruction load_neg)) = Some 4294967295 \<and>
   decode_instruction (encode_instruction load_neg) \<noteq> load_neg"
proof -
  let ?d = "decode_instruction (encode_instruction load_neg)"
  have n: "negative_immediate load_neg (- 1)"
    by (simp add: negative_immediate_def load_neg_def no_fields_def FORMATS_def reg_field_ok_def
        get_or_def imm_field_def imm_bits_def)
  from decode_negative_immediate [OF n]
  have d: "op ?d = op load_neg" "imm_field ?d = Some (- 1 + 2 ^ 32)" "?d \<noteq> load_neg"
    by simp_all
  have "op load_neg = LOAD" by (simp add: load_neg_def no_fields_def)
  with d(1,2) have "addr ?d = Some 4294967295" by (simp add: imm_field_def FORMATS_def)
  with n d(3) show ?thesis by simp
qed

section \<open>Basic facts about exceptions and Python lists\<close>

lemma bind_e_simps [simp]:
  "bind_e (Inl e) f = Inl e"
  "bind_e (Inr x) f = f x"
  by (simp_all add: bind_e_def)

lemma bind_e_eq_Inr: "bind_e m f = Inr y \<longleftrightarrow> (\<exists>x. m = Inr x \<and> f x = Inr y)"
  by (cases m) simp_all

section \<open>Effect of each stage\<close>

lemma py_index_SomeD: "py_index xs i = Some k \<Longrightarrow> k < length xs \<and> (0 \<le> i \<longrightarrow> k = nat i) \<and> (i < 0 \<longrightarrow> int k = int (length xs) + i)"
  by (auto simp: py_index_def Let_def split: if_splits)

lemma py_get_in_set: "py_get xs i = Inr x \<Longrightarrow> x \<in> set xs"
  by (auto simp: py_get_def split: option.splits dest!: py_index_SomeD)

lemma writeback_stage_frame:
  assumes "writeback_stage s = Inr s'"
  shows "if_id s' = if_id s" "id_ex s' = id_ex s" "ex_mem s' = ex_mem s" "mem_wb s' = mem_wb s"
    "pc s' = pc s" "instructions s' = instructions s" "stall s' = stall s" "flush s' = flush s"
    "memory s' = memory s" "cycles s' = cycles s" "branches_taken s' = branches_taken s"
    "stalls_inserted s' = stalls_inserted s"
  using assms
  by (auto simp: writeback_stage_def bind_e_eq_Inr split: if_splits option.splits)

lemma memory_stage_frame:
  assumes "memory_stage s = Inr s'"
  shows "if_id s' = if_id s" "id_ex s' = id_ex s" "ex_mem s' = ex_mem s"
    "pc s' = pc s" "instructions s' = instructions s" "stall s' = stall s" "flush s' = flush s"
    "registers s' = registers s" "cycles s' = cycles s" "branches_taken s' = branches_taken s"
    "stalls_inserted s' = stalls_inserted s" "instructions_completed s' = instructions_completed s"
    "valid (mem_wb s') = valid (ex_mem s)"
    "valid (mem_wb s') \<Longrightarrow> instruction (mem_wb s') = instruction (ex_mem s) \<and> instruction (ex_mem s) \<noteq> None"
  using assms
  by (auto simp: memory_stage_def mem_wb_invalid_def Let_def bind_e_eq_Inr split: if_splits option.splits)

lemma execute_stage_frame:
  assumes "execute_stage v s = Inr s'"
  shows "id_ex s' = id_ex s" "mem_wb s' = mem_wb s"
    "instructions s' = instructions s" "stall s' = stall s"
    "registers s' = registers s" "memory s' = memory s" "cycles s' = cycles s" 
    "stalls_inserted s' = stalls_inserted s" "instructions_completed s' = instructions_completed s"
    "valid (ex_mem s') = valid (id_ex s)"
    "valid (ex_mem s') \<Longrightarrow> instruction (ex_mem s') = instruction (id_ex s) \<and> instruction (id_ex s) \<noteq> None"
    "if_id s' = if_id s \<or> \<not> valid (if_id s')"
  using assms
  by (auto simp: execute_stage_def take_branch_def ex_mem_invalid_def if_id_invalid_def Let_def bind_e_eq_Inr split: if_splits option.splits opname.splits version.splits prod.splits)

lemma decode_stage_frame:
  assumes "decode_stage s = Inr s'"
  shows "ex_mem s' = ex_mem s" "mem_wb s' = mem_wb s" "pc s' = pc s"
    "instructions s' = instructions s" "flush s' = flush s"
    "registers s' = registers s" "memory s' = memory s" "cycles s' = cycles s"
    "branches_taken s' = branches_taken s" "instructions_completed s' = instructions_completed s"
  using assms
  by (auto simp: decode_stage_def Let_def bind_e_eq_Inr split: if_splits option.splits)

lemma decode_stage_flush:
  assumes "decode_stage s = Inr s'" "flush s"
  shows "if_id s' = if_id_invalid (pc s)" "id_ex s' = id_ex s" "stall s' = stall s"
    "stalls_inserted s' = stalls_inserted s"
  using assms by (auto simp: decode_stage_def)

lemma decode_stage_bubble:
  assumes "decode_stage s = Inr s'" "\<not> flush s" "\<not> valid (if_id s)"
  shows "if_id s' = if_id s" "id_ex s' = id_ex_invalid" "stall s' = stall s"
    "stalls_inserted s' = stalls_inserted s"
  using assms by (auto simp: decode_stage_def)

lemma decode_stage_valid:
  assumes "decode_stage s = Inr s'" "\<not> flush s" "valid (if_id s)"
  shows "if_id s' = if_id s" "stall s' = detect_hazards (if_id s) (id_ex s) (ex_mem s)"
    "\<exists>i. instruction (if_id s) = Some i \<and>
       (if stall s' then id_ex s' = id_ex_invalid \<and> stalls_inserted s' = stalls_inserted s + 1
        else stalls_inserted s' = stalls_inserted s \<and>
             (\<exists>v1 v2. read_register s (rs1 i) = Inr v1 \<and> read_register s (rs2 i) = Inr v2 \<and>
               id_ex s' = \<lparr>valid = True, instruction = Some i, rs1_value = v1, rs2_value = v2,
                           imm = decode_immediate i\<rparr>))"
  using assms
  by (auto simp: decode_stage_def Let_def bind_e_eq_Inr split: if_splits option.splits)

lemma fetch_stage_frame:
  assumes "fetch_stage v s = Inr s'"
  shows "id_ex s' = id_ex s" "ex_mem s' = ex_mem s" "mem_wb s' = mem_wb s"
    "instructions s' = instructions s" "flush s' = flush s" "stall s' = stall s"
    "registers s' = registers s" "memory s' = memory s" "cycles s' = cycles s"
    "branches_taken s' = branches_taken s" "instructions_completed s' = instructions_completed s"
    "stalls_inserted s' = stalls_inserted s"
  using assms
  by (auto simp: fetch_stage_def bind_e_eq_Inr split: if_splits version.splits)

lemma fetch_stage_cases:
  assumes "fetch_stage v s = Inr s'"
  shows "stall s \<Longrightarrow> if_id s' = if_id s \<and> pc s' = pc s"
    "\<not> stall s \<Longrightarrow> pc s < int (length (instructions s)) \<Longrightarrow>
       \<exists>i. py_get (instructions s) (pc s) = Inr i \<and> pc s' = pc s + 1 \<and>
           if_id s' = \<lparr>valid = True, instruction = Some i, fetch_pc = pc s\<rparr>"
    "\<not> stall s \<Longrightarrow> \<not> pc s < int (length (instructions s)) \<Longrightarrow>
       if_id s' = if_id_invalid (pc s) \<and> pc s' = pc s"
  using assms
  by (auto simp: fetch_stage_def bind_e_eq_Inr split: if_splits version.splits)

lemma post_ex_flush_simps [simp]:
  "id_ex (post_ex_flush s) = id_ex s" "ex_mem (post_ex_flush s) = ex_mem s"
  "mem_wb (post_ex_flush s) = mem_wb s" "pc (post_ex_flush s) = pc s"
  "instructions (post_ex_flush s) = instructions s" "stall (post_ex_flush s) = stall s"
  "registers (post_ex_flush s) = registers s" "memory (post_ex_flush s) = memory s"
  "cycles (post_ex_flush s) = cycles s" "branches_taken (post_ex_flush s) = branches_taken s"
  "instructions_completed (post_ex_flush s) = instructions_completed s"
  "stalls_inserted (post_ex_flush s) = stalls_inserted s"
  "flush (post_ex_flush s) = False"
  "if_id (post_ex_flush s) = (if flush s then if_id_invalid (pc s) else if_id s)"
  by (simp_all add: post_ex_flush_def)

lemma update_pipeline_view_simps [simp]:
  "if_id (update_pipeline_view s) = if_id s"
  "id_ex (update_pipeline_view s) = id_ex s" "ex_mem (update_pipeline_view s) = ex_mem s"
  "mem_wb (update_pipeline_view s) = mem_wb s" "pc (update_pipeline_view s) = pc s"
  "instructions (update_pipeline_view s) = instructions s"
  "stall (update_pipeline_view s) = stall s" "flush (update_pipeline_view s) = flush s"
  "registers (update_pipeline_view s) = registers s" "memory (update_pipeline_view s) = memory s"
  "cycles (update_pipeline_view s) = cycles s"
  "branches_taken (update_pipeline_view s) = branches_taken s"
  "instructions_completed (update_pipeline_view s) = instructions_completed s"
  "stalls_inserted (update_pipeline_view s) = stalls_inserted s"
  by (simp_all add: update_pipeline_view_def)

lemma reset_flush_simps [simp]:
  "if_id (reset_flush s) = if_id s"
  "id_ex (reset_flush s) = id_ex s" "ex_mem (reset_flush s) = ex_mem s"
  "mem_wb (reset_flush s) = mem_wb s" "pc (reset_flush s) = pc s"
  "instructions (reset_flush s) = instructions s"
  "stall (reset_flush s) = stall s" "flush (reset_flush s) = False"
  "registers (reset_flush s) = registers s" "memory (reset_flush s) = memory s"
  "cycles (reset_flush s) = cycles s"
  "branches_taken (reset_flush s) = branches_taken s"
  "instructions_completed (reset_flush s) = instructions_completed s"
  "stalls_inserted (reset_flush s) = stalls_inserted s"
  "pipeline (reset_flush s) = pipeline s"
  by (simp_all add: reset_flush_def)

lemma stepE:
  assumes "step v s = Inr s'"
  obtains s1 s2 s3 s4 s5 where
    "writeback_stage (s\<lparr>cycles := cycles s + 1\<rparr>) = Inr s1"
    "memory_stage s1 = Inr s2"
    "execute_stage v s2 = Inr s3"
    "decode_stage (case v of CPU \<Rightarrow> post_ex_flush s3 | CPU_Pipeline \<Rightarrow> s3) = Inr s4"
    "fetch_stage v s4 = Inr s5"
    "s' = (case v of CPU \<Rightarrow> update_pipeline_view s5
                   | CPU_Pipeline \<Rightarrow> reset_flush (update_pipeline_view s5))"
  using assms
  by (cases v) (auto simp: step_def bind_e_eq_Inr)

lemma step_cycles: "step v s = Inr s' \<Longrightarrow> cycles s' = cycles s + 1"
  by (erule stepE, cases v)
     (simp_all add: writeback_stage_frame memory_stage_frame execute_stage_frame
        decode_stage_frame fetch_stage_frame update_pipeline_view_def reset_flush_def)

lemma invalid_latch_simps [simp]:
  "valid (if_id_invalid p) = False" "instruction (if_id_invalid p) = None"
  "fetch_pc (if_id_invalid p) = p"
  "valid id_ex_invalid = False" "instruction id_ex_invalid = None"
  "valid ex_mem_invalid = False" "instruction ex_mem_invalid = None"
  "valid mem_wb_invalid = False" "instruction mem_wb_invalid = None"
  by (simp_all add: if_id_invalid_def id_ex_invalid_def ex_mem_invalid_def mem_wb_invalid_def)

lemma holds_invalid [simp]:
  "holds P (if_id_invalid p)" "holds P id_ex_invalid" "holds P ex_mem_invalid"
  "holds P mem_wb_invalid"
  by (simp_all add: holds_def if_id_invalid_def id_ex_invalid_def ex_mem_invalid_def
        mem_wb_invalid_def)

lemma holds_cong: "valid l' = valid l \<Longrightarrow> (valid l' \<Longrightarrow> instruction l' = instruction l) \<Longrightarrow> holds P l \<Longrightarrow> holds P l'"
  by (auto simp: holds_def)

lemma writeback_stage_all_instrs:
  "writeback_stage s = Inr s' \<Longrightarrow> all_instrs P s \<Longrightarrow> all_instrs P s'"
  by (simp add: all_instrs_def writeback_stage_frame)

lemma memory_stage_all_instrs:
  assumes "memory_stage s = Inr s'" "all_instrs P s"
  shows "all_instrs P s'"
proof -
  have "holds P (mem_wb s')"
    using memory_stage_frame(13,14)[OF assms(1)] assms(2)
    by (auto simp: holds_def all_instrs_def)
  with assms show ?thesis
    by (simp add: all_instrs_def memory_stage_frame)
qed

lemma execute_stage_all_instrs:
  assumes "execute_stage v s = Inr s'" "all_instrs P s"
  shows "all_instrs P s'"
proof -
  have "holds P (ex_mem s')"
    using execute_stage_frame(10,11)[OF assms(1)] assms(2)
    by (auto simp: holds_def all_instrs_def)
  moreover have "holds P (if_id s')"
    using execute_stage_frame(12)[OF assms(1)] assms(2)
    by (auto simp: holds_def all_instrs_def)
  ultimately show ?thesis using assms
    by (simp add: all_instrs_def execute_stage_frame)
qed

lemma post_ex_flush_all_instrs: "all_instrs P s \<Longrightarrow> all_instrs P (post_ex_flush s)"
  by (simp add: all_instrs_def)

lemma decode_stage_all_instrs:
  assumes "decode_stage s = Inr s'" "all_instrs P s"
  shows "all_instrs P s'"
proof -
  consider "flush s" | "\<not> flush s" "\<not> valid (if_id s)" | "\<not> flush s" "valid (if_id s)"
    by blast
  then have "holds P (if_id s') \<and> holds P (id_ex s')"
  proof cases
    case 1
    with assms show ?thesis by (simp add: decode_stage_flush all_instrs_def)
  next
    case 2
    with assms show ?thesis by (simp add: decode_stage_bubble all_instrs_def)
  next
    case 3
    from decode_stage_valid[OF assms(1) 3] assms(2) 3 show ?thesis
      by (auto simp: all_instrs_def holds_def split: if_splits)
  qed
  with assms show ?thesis by (simp add: all_instrs_def decode_stage_frame)
qed

lemma fetch_stage_all_instrs:
  assumes "fetch_stage v s = Inr s'" "all_instrs P s"
  shows "all_instrs P s'"
proof -
  have "holds P (if_id s')"
    using fetch_stage_cases[OF assms(1)] assms(2)
    by (cases "stall s"; cases "pc s < int (length (instructions s))")
       (auto simp: all_instrs_def holds_def list_all_iff dest: py_get_in_set)
  with assms show ?thesis by (simp add: all_instrs_def fetch_stage_frame)
qed

lemma all_instrs_cycles [simp]: "all_instrs P (s\<lparr>cycles := c\<rparr>) = all_instrs P s"
  by (simp add: all_instrs_def)

lemma all_instrs_view [simp]:
  "all_instrs P (update_pipeline_view s) = all_instrs P s"
  "all_instrs P (reset_flush s) = all_instrs P s"
  by (simp_all add: all_instrs_def)

lemma step_all_instrs:
  assumes "step v s = Inr s'" "all_instrs P s"
  shows "all_instrs P s'"
  using assms(1)
proof (rule stepE)
  fix s1 s2 s3 s4 s5
  assume st: "writeback_stage (s\<lparr>cycles := cycles s + 1\<rparr>) = Inr s1"
    "memory_stage s1 = Inr s2" "execute_stage v s2 = Inr s3"
    "decode_stage (case v of CPU \<Rightarrow> post_ex_flush s3 | CPU_Pipeline \<Rightarrow> s3) = Inr s4"
    "fetch_stage v s4 = Inr s5"
    "s' = (case v of CPU \<Rightarrow> update_pipeline_view s5
                   | CPU_Pipeline \<Rightarrow> reset_flush (update_pipeline_view s5))"
  have "all_instrs P s1" using st(1) assms(2) by (auto dest: writeback_stage_all_instrs)
  then have "all_instrs P s2" using st(2) by (rule memory_stage_all_instrs[rotated])
  then have "all_instrs P s3" using st(3) by (rule execute_stage_all_instrs[rotated])
  then have "all_instrs P (case v of CPU \<Rightarrow> post_ex_flush s3 | CPU_Pipeline \<Rightarrow> s3)"
    by (cases v) (simp_all add: post_ex_flush_all_instrs)
  then have "all_instrs P s4" using st(4) by (rule decode_stage_all_instrs[rotated])
  then have "all_instrs P s5" using st(5) by (rule fetch_stage_all_instrs[rotated])
  then show ?thesis using st(6) by (cases v) simp_all
qed

lemma py_set_keeps_0:
  assumes "py_set xs d v = Inr ys" "0 < d"
  shows "ys ! 0 = xs ! 0"
  using assms by (auto simp: py_set_def py_index_def Let_def split: if_splits)

lemma writeback_stage_register_0:
  assumes "writeback_stage s = Inr s'" "holds rd_ok (mem_wb s)"
  shows "registers s' ! 0 = registers s ! 0"
  using assms
  by (auto simp: writeback_stage_def bind_e_eq_Inr holds_def rd_ok_def
           split: if_splits option.splits dest: py_set_keeps_0)

lemma step_register_0:
  assumes "step v s = Inr s'" "all_instrs rd_ok s"
  shows "registers s' ! 0 = registers s ! 0"
  using assms(1)
proof (rule stepE)
  fix s1 s2 s3 s4 s5
  assume st: "writeback_stage (s\<lparr>cycles := cycles s + 1\<rparr>) = Inr s1"
    "memory_stage s1 = Inr s2" "execute_stage v s2 = Inr s3"
    "decode_stage (case v of CPU \<Rightarrow> post_ex_flush s3 | CPU_Pipeline \<Rightarrow> s3) = Inr s4"
    "fetch_stage v s4 = Inr s5"
    "s' = (case v of CPU \<Rightarrow> update_pipeline_view s5
                   | CPU_Pipeline \<Rightarrow> reset_flush (update_pipeline_view s5))"
  have "registers s1 ! 0 = registers s ! 0"
    using writeback_stage_register_0[OF st(1)] assms(2) by (simp add: all_instrs_def)
  moreover have "registers s' = registers s1"
    using st(2-6)
    by (cases v)
       (simp_all add: memory_stage_frame execute_stage_frame decode_stage_frame
          fetch_stage_frame)
  ultimately show ?thesis by simp
qed

text \<open>
  C4. Register 0 keeps the value 0: from every state with \<open>registers[0] = 0\<close>, after any
  number of calls of \<open>step\<close> (of either version) that return, \<open>registers[0]\<close> is still 0.
  The instructions of the program and of the latches have destination indices that are
  not negative, as the data model says.
\<close>


theorem register_zero_stays_zero:
  assumes "steps v n s = Inr s'" and "registers s ! 0 = 0" and "all_instrs rd_ok s"
  shows "registers s' ! 0 = 0"
  using assms
proof (induction n arbitrary: s)
  case 0
  then show ?case by simp
next
  case (Suc n)
  from Suc.prems(1) obtain s1 where s1: "step v s = Inr s1" "steps v n s1 = Inr s'"
    by (auto simp: bind_e_eq_Inr)
  from step_register_0[OF s1(1) Suc.prems(3)] Suc.prems(2) have "registers s1 ! 0 = 0" by simp
  moreover from step_all_instrs[OF s1(1) Suc.prems(3)] have "all_instrs rd_ok s1" .
  ultimately show ?case using Suc.IH s1(2) by blast
qed

theorem register_zero_stays_zero_witness:
  "\<exists>s'. steps CPU 6 r0_state = Inr s' \<and> registers s' ! 0 = 0"
proof -
  have "case steps CPU 6 r0_state of Inr s' \<Rightarrow> True | Inl e \<Rightarrow> False"
    by code_simp
  then obtain s' where s': "steps CPU 6 r0_state = Inr s'"
    by (auto split: sum.splits)
  have r0: "registers r0_state ! 0 = 0"
    by (simp add: r0_state_def)
  have ok: "all_instrs rd_ok r0_state"
    by (simp add: r0_state_def load_instructions_def reset_pipeline_def init_cpu_def
          all_instrs_def rd_ok_def add_to_r0_def)
  from register_zero_stays_zero [OF s' r0 ok] s' show ?thesis by blast
qed

section \<open>Taken branches and the IF/ID latch\<close>






section \<open>The loop of \<open>run\<close>\<close>

lemma run_cycles_run: "run_cycles v n s = Inr s' \<Longrightarrow> run v s = run v s'"
proof (induction n arbitrary: s)
  case 0
  then show ?case by simp
next
  case (Suc n)
  show ?case
  proof (cases "busy s")
    case True
    with Suc.prems obtain s1 where s1: "step v s = Inr s1" "run_cycles v n s1 = Inr s'"
      by (auto simp: bind_e_eq_Inr)
    have "run v s = run v s1" using True s1(1) by (subst run.simps) simp
    with Suc.IH[OF s1(2)] show ?thesis by simp
  next
    case False
    with Suc.prems show ?thesis by simp
  qed
qed

lemma run_idle: "\<not> busy s \<Longrightarrow> run v s = Some (Inr s)"
  by (subst run.simps) simp

lemma jump_out_gets_stuck: "case run_cycles CPU_Pipeline 4 jump_out_state of Inr s \<Rightarrow> stuck s | Inl e \<Rightarrow> False"
  by code_simp

lemma stuck_step:
  assumes "stuck s"
  shows "busy s \<and> (\<exists>s'. step CPU_Pipeline s = Inr s' \<and> stuck s')"
  using assms
  by (simp add: stuck_def busy_def step_def writeback_stage_def memory_stage_def execute_stage_def decode_stage_def fetch_stage_def
      take_branch_def update_pipeline_view_def reset_flush_def shown_def apply_forwarding_def get_forwarding_signals_def forward_rd_def forward_value_def get_or_def
      writes_register_def jump_to_def jump_latch_def Let_def mem_wb_invalid_def if_id_invalid_def)


section \<open>The view after a step\<close>

lemma memory_stage_view:
  assumes "memory_stage s = Inr s'"
  shows "MEM_stage (pipeline s') \<noteq> None \<longleftrightarrow> valid (ex_mem s)"
  using assms
  by (auto simp: memory_stage_def Let_def bind_e_eq_Inr split: if_splits option.splits)

lemma execute_stage_view:
  assumes "execute_stage v s = Inr s'"
  shows "MEM_stage (pipeline s') = MEM_stage (pipeline s)"
  using assms
  by (auto simp: execute_stage_def take_branch_def Let_def bind_e_eq_Inr
           split: if_splits option.splits opname.splits version.splits prod.splits)

lemma decode_stage_view:
  assumes "decode_stage s = Inr s'"
  shows "MEM_stage (pipeline s') = MEM_stage (pipeline s)"
  using assms
  by (auto simp: decode_stage_def Let_def bind_e_eq_Inr split: if_splits option.splits)

lemma fetch_stage_view:
  assumes "fetch_stage v s = Inr s'"
  shows "MEM_stage (pipeline s') = MEM_stage (pipeline s)"
  using assms
  by (auto simp: fetch_stage_def bind_e_eq_Inr split: if_splits version.splits)

lemma post_ex_flush_view [simp]: "MEM_stage (pipeline (post_ex_flush s)) = MEM_stage (pipeline s)"
  by (simp add: post_ex_flush_def)

lemma shown_eq_None: "valid l \<longrightarrow> instruction l \<noteq> None \<Longrightarrow> shown l \<noteq> None \<longleftrightarrow> valid l"
  by (auto simp: shown_def)

lemma decode_stage_instr:
  assumes "decode_stage s = Inr s'"
    and "valid (id_ex s) \<longrightarrow> instruction (id_ex s) \<noteq> None"
  shows "valid (id_ex s') \<longrightarrow> instruction (id_ex s') \<noteq> None"
    and "\<not> flush s \<longrightarrow> valid (if_id s') \<longrightarrow> instruction (if_id s') \<noteq> None"
    and "flush s \<longrightarrow> \<not> valid (if_id s')"
  using assms
  by (auto simp: decode_stage_def Let_def bind_e_eq_Inr split: if_splits option.splits)

lemma fetch_stage_instr:
  assumes "fetch_stage v s = Inr s'"
    and "valid (if_id s) \<longrightarrow> instruction (if_id s) \<noteq> None"
  shows "valid (if_id s') \<longrightarrow> instruction (if_id s') \<noteq> None"
  using assms
  by (auto simp: fetch_stage_def bind_e_eq_Inr split: if_splits version.splits)

lemma step_view_ok:
  assumes "step v s = Inr s'"
  shows "view_ok s'"
  using assms
proof (rule stepE)
  fix s1 s2 s3 s4 s5
  assume st: "writeback_stage (s\<lparr>cycles := cycles s + 1\<rparr>) = Inr s1"
    "memory_stage s1 = Inr s2" "execute_stage v s2 = Inr s3"
    "decode_stage (case v of CPU \<Rightarrow> post_ex_flush s3 | CPU_Pipeline \<Rightarrow> s3) = Inr s4"
    "fetch_stage v s4 = Inr s5"
    "s' = (case v of CPU \<Rightarrow> update_pipeline_view s5
                   | CPU_Pipeline \<Rightarrow> reset_flush (update_pipeline_view s5))"
  let ?s3 = "case v of CPU \<Rightarrow> post_ex_flush s3 | CPU_Pipeline \<Rightarrow> s3"
  have mw: "valid (mem_wb s5) \<longrightarrow> instruction (mem_wb s5) \<noteq> None"
    "mem_wb s5 = mem_wb s2"
    using memory_stage_frame(14)[OF st(2)] st(3-5)
    by (cases v; simp add: execute_stage_frame decode_stage_frame fetch_stage_frame)+
  have xm: "valid (ex_mem s5) \<longrightarrow> instruction (ex_mem s5) \<noteq> None"
    using execute_stage_frame(11)[OF st(3)] st(4,5)
    by (cases v; simp add: decode_stage_frame fetch_stage_frame)
  have dx3: "valid (id_ex ?s3) \<longrightarrow> instruction (id_ex ?s3) \<noteq> None"
    using execute_stage_frame(1,10,11)[OF st(3)] by (cases v) auto
  have dx: "valid (id_ex s5) \<longrightarrow> instruction (id_ex s5) \<noteq> None"
    using decode_stage_instr(1)[OF st(4) dx3] st(5) by (simp add: fetch_stage_frame)
  have "valid (if_id s4) \<longrightarrow> instruction (if_id s4) \<noteq> None"
    using decode_stage_instr(2,3)[OF st(4) dx3] by blast
  from fetch_stage_instr[OF st(5) this]
  have fd: "valid (if_id s5) \<longrightarrow> instruction (if_id s5) \<noteq> None" .
  have "MEM_stage (pipeline s5) = MEM_stage (pipeline s2)"
    using st(3-5)
    by (cases v) (simp_all add: execute_stage_view decode_stage_view fetch_stage_view)
  with memory_stage_view[OF st(2)] memory_stage_frame(13)[OF st(2)] mw(2)
  have wb: "MEM_stage (pipeline s5) \<noteq> None \<longrightarrow> valid (mem_wb s5)" by simp
  have "view_ok (update_pipeline_view s5)"
    using mw(1) xm dx fd wb
    by (auto simp: view_ok_def update_pipeline_view_def shown_def)
  then show ?thesis using st(6) by (cases v) (simp_all add: view_ok_def)
qed


section \<open>Termination of \<open>run\<close>\<close>

lemma execute_stage_no_branch:
  assumes "execute_stage v s = Inr s'" "holds no_branch (id_ex s)"
  shows "pc s' = pc s" "flush s' = flush s" "if_id s' = if_id s"
    "branches_taken s' = branches_taken s"
  using assms
  by (auto simp: execute_stage_def holds_def no_branch_def Let_def bind_e_eq_Inr
           split: if_splits option.splits opname.splits prod.splits)

lemma detect_hazards_valid: "detect_hazards a b c \<Longrightarrow> valid a \<and> valid b"
  by (auto simp: detect_hazards_def Let_def split: if_splits option.splits)

lemma step_shape:
  assumes "step v s = Inr s'" "all_instrs no_branch s" "\<not> flush s"
  shows "valid (mem_wb s') = valid (ex_mem s) \<and> valid (ex_mem s') = valid (id_ex s) \<and>
         instructions s' = instructions s \<and> \<not> flush s' \<and>
         (stall s' \<longrightarrow> if_id s' = if_id s \<and> pc s' = pc s) \<and>
         (\<not> stall s' \<longrightarrow>
            (if pc s < int (length (instructions s))
             then valid (if_id s') \<and> pc s' = pc s + 1
             else \<not> valid (if_id s') \<and> pc s' = pc s)) \<and>
         (if valid (if_id s)
          then (stall s' \<longrightarrow> valid (id_ex s)) \<and> valid (id_ex s') = (\<not> stall s')
          else stall s' = stall s \<and> \<not> valid (id_ex s'))"
  using assms(1)
proof (rule stepE)
  fix s1 s2 s3 s4 s5
  assume st: "writeback_stage (s\<lparr>cycles := cycles s + 1\<rparr>) = Inr s1"
    "memory_stage s1 = Inr s2" "execute_stage v s2 = Inr s3"
    "decode_stage (case v of CPU \<Rightarrow> post_ex_flush s3 | CPU_Pipeline \<Rightarrow> s3) = Inr s4"
    "fetch_stage v s4 = Inr s5"
    "s' = (case v of CPU \<Rightarrow> update_pipeline_view s5
                   | CPU_Pipeline \<Rightarrow> reset_flush (update_pipeline_view s5))"
  have s2: "if_id s2 = if_id s" "id_ex s2 = id_ex s" "pc s2 = pc s" "flush s2 = flush s"
    "stall s2 = stall s" "instructions s2 = instructions s"
    "valid (mem_wb s2) = valid (ex_mem s)"
    using st(1,2) by (simp_all add: writeback_stage_frame memory_stage_frame)
  have "holds no_branch (id_ex s2)" using assms(2) s2 by (simp add: all_instrs_def)
  note nb = execute_stage_no_branch[OF st(3) this]
  have s3: "if_id s3 = if_id s" "id_ex s3 = id_ex s" "pc s3 = pc s" "\<not> flush s3"
    "stall s3 = stall s" "instructions s3 = instructions s"
    "valid (mem_wb s3) = valid (ex_mem s)" "valid (ex_mem s3) = valid (id_ex s)"
    using nb s2 assms(3) st(3) by (simp_all add: execute_stage_frame)
  have d: "decode_stage s3 = Inr s4"
    using st(4) s3(4) by (cases v) (simp_all add: post_ex_flush_def)
  have s4: "pc s4 = pc s" "\<not> flush s4" "instructions s4 = instructions s"
    "valid (mem_wb s4) = valid (ex_mem s)" "valid (ex_mem s4) = valid (id_ex s)"
    "if_id s4 = if_id s"
    using decode_stage_frame[OF d] s3 decode_stage_bubble(1)[OF d] decode_stage_valid(1)[OF d]
    by (cases "valid (if_id s)"; simp)+
  have dx: "if valid (if_id s)
          then (stall s4 \<longrightarrow> valid (id_ex s)) \<and> valid (id_ex s4) = (\<not> stall s4)
          else stall s4 = stall s \<and> \<not> valid (id_ex s4)"
  proof (cases "valid (if_id s)")
    case True
    then have "valid (if_id s3)" using s3 by simp
    from decode_stage_valid[OF d s3(4) this] s3 True show ?thesis
      by (auto dest: detect_hazards_valid simp: id_ex_invalid_def split: if_splits)
  next
    case False
    then have "\<not> valid (if_id s3)" using s3 by simp
    from decode_stage_bubble[OF d s3(4) this] s3 False show ?thesis by simp
  qed
  have s5: "stall s5 = stall s4" "id_ex s5 = id_ex s4" "ex_mem s5 = ex_mem s4"
    "mem_wb s5 = mem_wb s4" "flush s5 = flush s4" "instructions s5 = instructions s4"
    using st(5) by (simp_all add: fetch_stage_frame)
  have fc: "(stall s4 \<longrightarrow> if_id s5 = if_id s \<and> pc s5 = pc s) \<and>
         (\<not> stall s4 \<longrightarrow>
            (if pc s < int (length (instructions s))
             then valid (if_id s5) \<and> pc s5 = pc s + 1
             else \<not> valid (if_id s5) \<and> pc s5 = pc s))"
    using fetch_stage_cases[OF st(5)] s4 by auto
  have eq: "if_id s' = if_id s5" "id_ex s' = id_ex s5" "ex_mem s' = ex_mem s5"
    "mem_wb s' = mem_wb s5" "pc s' = pc s5" "stall s' = stall s5"
    "instructions s' = instructions s5" "flush s' = (case v of CPU \<Rightarrow> flush s5 | CPU_Pipeline \<Rightarrow> False)"
    using st(6) by (cases v; simp)+
  have "\<not> flush s'" using eq(8) s5 s4 by (cases v) simp_all
  with eq s5 s4 dx fc show ?thesis by simp
qed

lemma busy_latches:
  assumes "view_ok s" "busy s"
  shows "valid (if_id s) \<or> valid (id_ex s) \<or> valid (ex_mem s) \<or> valid (mem_wb s) \<or>
         pc s < int (length (instructions s))"
  using assms by (auto simp: view_ok_def busy_def)

lemma idle_drained:
  assumes "view_ok s" "\<not> busy s"
  shows "drained s"
  using assms by (auto simp: view_ok_def busy_def drained_def)

lemma step_run_inv:
  assumes "step v s = Inr s'" "run_inv s"
  shows "run_inv s'"
proof -
  from assms(2) have a: "all_instrs no_branch s" "\<not> flush s" "stall s \<longrightarrow> valid (if_id s)"
    by (simp_all add: run_inv_def)
  from step_shape[OF assms(1) a(1,2)] a(3)
  have "\<not> flush s'" "stall s' \<longrightarrow> valid (if_id s')"
    by (auto split: if_splits)
  with step_view_ok[OF assms(1)] step_all_instrs[OF assms(1) a(1)]
  show ?thesis by (simp add: run_inv_def)
qed

lemma step_potential:
  assumes "step v s = Inr s'" "run_inv s" "busy s"
  shows "potential s' < potential s"
proof -
  from assms(2) have a: "all_instrs no_branch s" "\<not> flush s" "stall s \<longrightarrow> valid (if_id s)"
    "view_ok s"
    by (simp_all add: run_inv_def)
  note sh = step_shape[OF assms(1) a(1,2)]
  note b = busy_latches[OF a(4) assms(3)]
  show ?thesis
  proof (cases "stall s'")
    case True
    with sh a(3) have "valid (if_id s)" "valid (id_ex s)" "\<not> valid (id_ex s')"
      "if_id s' = if_id s" "pc s' = pc s" "instructions s' = instructions s"
      "valid (mem_wb s') = valid (ex_mem s)" "valid (ex_mem s') = valid (id_ex s)"
      by (auto split: if_splits)
    then show ?thesis by (simp add: potential_def weight_def)
  next
    case False
    show ?thesis
    proof (cases "pc s < int (length (instructions s))")
      case True
      with sh False have f: "valid (if_id s')" "pc s' = pc s + 1"
        "instructions s' = instructions s"
        "valid (mem_wb s') = valid (ex_mem s)" "valid (ex_mem s') = valid (id_ex s)"
        "valid (id_ex s') \<longrightarrow> valid (if_id s)"
        by (auto split: if_splits)
      from True have "nat (int (length (instructions s)) - pc s) =
          Suc (nat (int (length (instructions s)) - (pc s + 1)))"
        by linarith
      with f show ?thesis by (auto simp: potential_def weight_def)
    next
      case nofetch: False
      with sh False have f: "\<not> valid (if_id s')" "pc s' = pc s"
        "instructions s' = instructions s"
        "valid (mem_wb s') = valid (ex_mem s)" "valid (ex_mem s') = valid (id_ex s)"
        "valid (id_ex s') = valid (if_id s)"
        by (auto split: if_splits)
      with b nofetch show ?thesis by (auto simp: potential_def weight_def)
    qed
  qed
qed

lemma run_terminates:
  assumes "run_inv s"
  shows "\<exists>r. run v s = Some r"
  using assms
proof (induction "potential s" arbitrary: s rule: less_induct)
  case less
  show ?case
  proof (cases "busy s")
    case False
    then show ?thesis by (simp add: run_idle)
  next
    case True
    show ?thesis
    proof (cases "step v s")
      case (Inl e)
      with True have "run v s = Some (Inl e)" by (subst run.simps) simp
      then show ?thesis by blast
    next
      case (Inr s')
      with True have "run v s = run v s'" by (subst run.simps) simp
      moreover from less.hyps[OF step_potential[OF Inr less.prems True] step_run_inv[OF Inr less.prems]]
      obtain r where "run v s' = Some r" by blast
      ultimately show ?thesis by simp
    qed
  qed
qed

lemma run_returns_drained:
  assumes "run v s = Some r"
  shows "view_ok s \<longrightarrow> (\<forall>s'. r = Inr s' \<longrightarrow> drained s')"
proof (rule run.raw_induct
    [where P = "\<lambda>v s r. view_ok s \<longrightarrow> (\<forall>s'. r = Inr s' \<longrightarrow> drained s')", OF _ assms])
  fix f :: "version \<Rightarrow> cpu \<Rightarrow> (error + cpu) option" and v s r
  assume IH: "\<And>v s r. f v s = Some r \<Longrightarrow> view_ok s \<longrightarrow> (\<forall>s'. r = Inr s' \<longrightarrow> drained s')"
    and eq: "(if busy s then case step v s of Inl e \<Rightarrow> Some (Inl e) | Inr s' \<Rightarrow> f v s'
             else Some (Inr s)) = Some r"
  show "view_ok s \<longrightarrow> (\<forall>s'. r = Inr s' \<longrightarrow> drained s')"
  proof (cases "busy s")
    case False
    with eq have "r = Inr s" by simp
    with False show ?thesis by (auto dest: idle_drained)
  next
    case True
    show ?thesis
    proof (cases "step v s")
      case (Inl e)
      with True eq show ?thesis by auto
    next
      case (Inr s1)
      with True eq have "f v s1 = Some r" by simp
      from IH[OF this] step_view_ok[OF Inr] show ?thesis by blast
    qed
  qed
qed

lemma run_cycles_bound:
  "run_cycles v n s = Inr s' \<Longrightarrow> cycles s \<le> cycles s' \<and> cycles s' \<le> cycles s + int n"
proof (induction n arbitrary: s)
  case 0
  then show ?case by simp
next
  case (Suc n)
  show ?case
  proof (cases "busy s")
    case True
    with Suc.prems obtain s1 where s1: "step v s = Inr s1" "run_cycles v n s1 = Inr s'"
      by (auto simp: bind_e_eq_Inr)
    from Suc.IH[OF s1(2)] step_cycles[OF s1(1)] show ?thesis by simp
  next
    case False
    with Suc.prems show ?thesis by simp
  qed
qed

lemmas stage_defs =
  step_def writeback_stage_def memory_stage_def execute_stage_def decode_stage_def
  fetch_stage_def take_branch_def update_pipeline_view_def reset_flush_def post_ex_flush_def
  shown_def apply_forwarding_def get_forwarding_signals_def forward_rd_def forward_value_def
  detect_hazards_def read_register_def decode_immediate_def get_or_def writes_register_def
  Let_def mem_wb_invalid_def if_id_invalid_def id_ex_invalid_def ex_mem_invalid_def

lemma looping_step:
  assumes "looping s"
  shows "busy s \<and> (\<exists>s'. step CPU s = Inr s' \<and> looping s')"
proof (cases "valid (if_id s)")
  case True
  with assms show ?thesis
    by (simp add: looping_def busy_def stage_defs jump_to_def py_get_def py_index_def)
next
  case False
  with assms show ?thesis
    by (simp add: looping_def busy_def stage_defs jump_to_def py_get_def py_index_def)
qed

lemma invariant_blocks_return:
  assumes step: "\<And>s. I s \<Longrightarrow> busy s \<and> (\<exists>s'. step v s = Inr s' \<and> I s')"
    and ret: "run w t = Some r"
  shows "w = v \<longrightarrow> \<not> I t"
proof (rule run.raw_induct [where P = "\<lambda>w t r. w = v \<longrightarrow> \<not> I t", OF _ ret])
  fix f :: "version \<Rightarrow> cpu \<Rightarrow> (error + cpu) option" and w t r
  assume IH: "\<And>w t r. f w t = Some r \<Longrightarrow> w = v \<longrightarrow> \<not> I t"
    and eq: "(if busy t then case step w t of Inl e \<Rightarrow> Some (Inl e) | Inr s' \<Rightarrow> f w s'
             else Some (Inr t)) = Some r"
  show "w = v \<longrightarrow> \<not> I t"
  proof (intro impI notI)
    assume w: "w = v" and i: "I t"
    from step[OF i] obtain t' where t': "busy t" "step v t = Inr t'" "I t'" by blast
    from eq have "f w t' = Some r" unfolding w by (simp only: t' if_True sum.case)
    from IH[OF this] w t'(3) show False by simp
  qed
qed

lemma invariant_never_returns:
  assumes "\<And>s. I s \<Longrightarrow> busy s \<and> (\<exists>s'. step v s = Inr s' \<and> I s')"
    and "I s"
  shows "run v s = None"
  using invariant_blocks_return [of I v v s, OF assms(1)] assms(2)
  by (cases "run v s") auto

lemma jump_back_gets_looping:
  "case run_cycles CPU 3 jump_back_state of Inr s \<Rightarrow> looping s | Inl e \<Rightarrow> False"
  by code_simp

text \<open>
  C2 as stated fails: \<open>run\<close> with no cycle limit does not terminate for every finite
  program. On the one-instruction program \<open>JUMP 0\<close> the version \<open>CPU\<close> fetches and
  executes the jump again and again, and \<open>run\<close> never returns.
\<close>

theorem run_loops_forever_counterexample: "run CPU jump_back_state = None"
proof -
  obtain s where s: "run_cycles CPU 3 jump_back_state = Inr s" "looping s"
    using jump_back_gets_looping by (auto split: sum.splits)
  have "run CPU s = None"
    using looping_step s(2) by (rule invariant_never_returns)
  with run_cycles_run [OF s(1)] show ?thesis by simp
qed

lemma load_instructions_run_inv:
  assumes "list_all no_branch prog" "\<not> stall c" "\<not> flush c"
  shows "run_inv (load_instructions prog c)"
  using assms
  by (simp add: run_inv_def load_instructions_def reset_pipeline_def view_ok_def
        all_instrs_def empty_view_def)

text \<open>
  C2 (as amended). (1) For every program: when \<open>run\<close> with no cycle limit returns, started
  in a state whose view agrees with the latches (as after \<open>load_instructions\<close> or after
  any step), all four latches are invalid and \<open>pc\<close> is at or past the end of the program.
  (2) For every program without BEQ and JUMP (the latches hold none either, \<open>flush\<close> is
  clear and \<open>stall\<close> is set only while IF/ID is valid, as after \<open>load_instructions\<close> on a
  fresh processor), \<open>run\<close> with no cycle limit terminates: it returns or raises.
  (3) With a cycle limit \<open>n\<close>, \<open>run\<close> stops after at most \<open>n\<close> further steps.
  Both versions.
\<close>

theorem run_stops:
  "(view_ok s \<and> run v s = Some (Inr s') \<longrightarrow> drained s') \<and>
   (run_inv s \<longrightarrow> (\<exists>r. run v s = Some r)) \<and>
   (run_cycles v n s = Inr s'' \<longrightarrow> cycles s'' \<le> cycles s + int n)"
  using run_returns_drained [of v s "Inr s'"] run_terminates [of s v]
    run_cycles_bound [of v n s s'']
  by blast

theorem run_stops_witness:
  "run_inv load_use_state \<and>
   (\<exists>s'. run CPU load_use_state = Some (Inr s') \<and> drained s' \<and> cycles s' \<le> 20)"
proof -
  have inv: "run_inv load_use_state"
    unfolding load_use_state_def
    by (rule load_instructions_run_inv)
       (simp_all add: no_branch_def ex_load_r8_def ex_add_r9_def init_cpu_def)
  have "case run_cycles CPU 20 load_use_state of Inr s \<Rightarrow> \<not> busy s | Inl e \<Rightarrow> False"
    by code_simp
  then obtain t where t: "run_cycles CPU 20 load_use_state = Inr t" "\<not> busy t"
    by (auto split: sum.splits)
  from run_cycles_run [OF t(1)] run_idle [OF t(2)]
  have r: "run CPU load_use_state = Some (Inr t)" by simp
  have c0: "cycles load_use_state = 0"
    by (simp add: load_use_state_def load_instructions_def reset_pipeline_def init_cpu_def)
  from inv have v: "view_ok load_use_state" by (simp add: run_inv_def)
  from run_stops [of load_use_state CPU t 20 t] v r t(1) c0
  have "drained t \<and> cycles t \<le> 20" by simp
  with inv r show ?thesis by blast
qed


section \<open>A STORE behind the producer of its source register\<close>

lemma py_set_nth:
  assumes "py_set xs r v = Inr ys" "0 < r"
  shows "py_get ys r = Inr v" "length ys = length xs"
  using assms by (auto simp: py_set_def py_get_def py_index_def split: if_splits)

lemma writeback_stage_producer:
  assumes "writeback_stage s = Inr s'" "valid (mem_wb s)" "instruction (mem_wb s) = Some p"
    "is_producer p r"
  shows "py_get (registers s') r = Inr (result (mem_wb s))"
  using assms
  by (auto simp: writeback_stage_def bind_e_eq_Inr is_producer_def dest: py_set_nth(1))

lemma memory_stage_store:
  assumes "memory_stage s = Inr s'" "valid (ex_mem s)" "instruction (ex_mem s) = Some q"
    "op q = STORE" "rs q = Some r" "in_memory s (alu_result (ex_mem s))"
    "py_get (registers s) r = Inr x"
  shows "memory s' ! nat (alu_result (ex_mem s)) = x"
  using assms
  by (auto simp: memory_stage_def bind_e_eq_Inr Let_def in_memory_def)

lemma memory_stage_length:
  assumes "memory_stage s = Inr s'"
  shows "length (memory s') = length (memory s)"
  using assms
  by (auto simp: memory_stage_def bind_e_eq_Inr Let_def split: if_splits option.splits)

lemma step_memory_length:
  assumes "step v s = Inr s'"
  shows "length (memory s') = length (memory s)"
  using assms
proof (rule stepE)
  fix s1 s2 s3 s4 s5
  assume st: "writeback_stage (s\<lparr>cycles := cycles s + 1\<rparr>) = Inr s1"
    "memory_stage s1 = Inr s2" "execute_stage v s2 = Inr s3"
    "decode_stage (case v of CPU \<Rightarrow> post_ex_flush s3 | CPU_Pipeline \<Rightarrow> s3) = Inr s4"
    "fetch_stage v s4 = Inr s5"
    "s' = (case v of CPU \<Rightarrow> update_pipeline_view s5
                   | CPU_Pipeline \<Rightarrow> reset_flush (update_pipeline_view s5))"
  have "memory s' = memory s2"
    using st(3-6)
    by (cases v) (simp_all add: execute_stage_frame decode_stage_frame fetch_stage_frame)
  moreover have "memory s1 = memory s" using st(1) by (simp add: writeback_stage_frame)
  ultimately show ?thesis using memory_stage_length[OF st(2)] by simp
qed

text \<open>The cycle in which the producer is in WB and the STORE in MEM.\<close>

lemma step_writeback_before_store:
  assumes "step v s = Inr s'"
    and "valid (mem_wb s)" "instruction (mem_wb s) = Some p" "is_producer p r"
    and "valid (ex_mem s)" "instruction (ex_mem s) = Some q" "op q = STORE" "rs q = Some r"
    and "in_memory s (alu_result (ex_mem s))"
  shows "memory s' ! nat (alu_result (ex_mem s)) = result (mem_wb s) \<and>
         py_get (registers s') r = Inr (result (mem_wb s))"
  using assms(1)
proof (rule stepE)
  fix s1 s2 s3 s4 s5
  assume st: "writeback_stage (s\<lparr>cycles := cycles s + 1\<rparr>) = Inr s1"
    "memory_stage s1 = Inr s2" "execute_stage v s2 = Inr s3"
    "decode_stage (case v of CPU \<Rightarrow> post_ex_flush s3 | CPU_Pipeline \<Rightarrow> s3) = Inr s4"
    "fetch_stage v s4 = Inr s5"
    "s' = (case v of CPU \<Rightarrow> update_pipeline_view s5
                   | CPU_Pipeline \<Rightarrow> reset_flush (update_pipeline_view s5))"
  have r1: "py_get (registers s1) r = Inr (result (mem_wb s))"
    using writeback_stage_producer[OF st(1) _ _ assms(4)] assms(2,3) by simp
  have s1: "ex_mem s1 = ex_mem s" "memory s1 = memory s"
    using st(1) by (simp_all add: writeback_stage_frame)
  have "in_memory s1 (alu_result (ex_mem s1))"
    using assms(9) s1 by (simp add: in_memory_def)
  from memory_stage_store[OF st(2) _ _ assms(7,8) this r1] assms(5,6) s1
  have m2: "memory s2 ! nat (alu_result (ex_mem s)) = result (mem_wb s)" by simp
  have "memory s' = memory s2" "registers s' = registers s1"
    using st(2-6)
    by (cases v; simp add: memory_stage_frame execute_stage_frame decode_stage_frame
          fetch_stage_frame)+
  with m2 r1 show ?thesis by simp
qed

lemma detect_hazards_no_sources:
  assumes "instruction a = Some q" "rs1 q = None" "rs2 q = None"
  shows "\<not> detect_hazards a b c"
  using assms by (simp add: detect_hazards_def get_or_def)

lemma detect_hazards_needs_load:
  assumes "detect_hazards a b c"
  shows "\<exists>j. instruction b = Some j \<and> op j = LOAD"
  using assms by (auto simp: detect_hazards_def Let_def split: if_splits option.splits)

lemma execute_stage_store:
  assumes "execute_stage v s = Inr s'" "valid (id_ex s)" "instruction (id_ex s) = Some q"
    "op q = STORE"
  shows "alu_result (ex_mem s') = imm (id_ex s)" "flush s' = flush s" "if_id s' = if_id s"
  using assms
  by (auto simp: execute_stage_def Let_def split: prod.splits)

lemma decode_stage_no_load:
  assumes "decode_stage s = Inr s'" "\<And>j. instruction (id_ex s) = Some j \<Longrightarrow> op j \<noteq> LOAD"
  shows "stalls_inserted s' = stalls_inserted s"
proof -
  consider "flush s" | "\<not> flush s" "\<not> valid (if_id s)" | "\<not> flush s" "valid (if_id s)"
    by blast
  then show ?thesis
  proof cases
    case 1
    with assms(1) show ?thesis by (simp add: decode_stage_flush)
  next
    case 2
    with assms(1) show ?thesis by (simp add: decode_stage_bubble)
  next
    case 3
    from decode_stage_valid(2,3)[OF assms(1) 3] assms(2) show ?thesis
      by (auto dest!: detect_hazards_needs_load split: if_splits)
  qed
qed

lemma is_producer_no_branch: "is_producer p r \<Longrightarrow> no_branch p"
  by (auto simp: is_producer_def writes_register_def no_branch_def)

text \<open>The cycle in which the producer is in EX and the STORE in ID.\<close>

lemma step_producer_execute:
  assumes "step v s = Inr s'"
    and "valid (id_ex s)" "instruction (id_ex s) = Some p" "is_producer p r"
    and "valid (if_id s)" "instruction (if_id s) = Some q" "is_store q r a"
    and "\<not> flush s"
  shows "valid (ex_mem s') \<and> instruction (ex_mem s') = Some p \<and>
         id_ex s' = \<lparr>valid = True, instruction = Some q, rs1_value = 0, rs2_value = 0,
                     imm = a\<rparr> \<and>
         stalls_inserted s' = stalls_inserted s"
  using assms(1)
proof (rule stepE)
  fix s1 s2 s3 s4 s5
  assume st: "writeback_stage (s\<lparr>cycles := cycles s + 1\<rparr>) = Inr s1"
    "memory_stage s1 = Inr s2" "execute_stage v s2 = Inr s3"
    "decode_stage (case v of CPU \<Rightarrow> post_ex_flush s3 | CPU_Pipeline \<Rightarrow> s3) = Inr s4"
    "fetch_stage v s4 = Inr s5"
    "s' = (case v of CPU \<Rightarrow> update_pipeline_view s5
                   | CPU_Pipeline \<Rightarrow> reset_flush (update_pipeline_view s5))"
  have s2: "if_id s2 = if_id s" "id_ex s2 = id_ex s" "flush s2 = flush s"
    "stalls_inserted s2 = stalls_inserted s"
    using st(1,2) by (simp_all add: writeback_stage_frame memory_stage_frame)
  have "holds no_branch (id_ex s2)"
    using s2 assms(3,4) by (simp add: holds_def is_producer_no_branch)
  note nb = execute_stage_no_branch[OF st(3) this]
  have s3: "if_id s3 = if_id s" "id_ex s3 = id_ex s" "\<not> flush s3"
    "stalls_inserted s3 = stalls_inserted s"
    "valid (ex_mem s3)" "instruction (ex_mem s3) = Some p"
    using nb s2 assms(2,3,8) execute_stage_frame[OF st(3)] by simp_all
  have d: "decode_stage s3 = Inr s4"
    using st(4) s3(3) by (cases v) (simp_all add: post_ex_flush_def)
  have v3: "valid (if_id s3)" using s3 assms(5) by simp
  have nh: "\<not> detect_hazards (if_id s3) (id_ex s3) (ex_mem s3)"
    using assms(6,7) s3(1) by (intro detect_hazards_no_sources[of _ q]) (simp_all add: is_store_def)
  from decode_stage_valid[OF d s3(3) v3] nh s3 assms(6,7)
  have s4: "id_ex s4 = \<lparr>valid = True, instruction = Some q, rs1_value = 0, rs2_value = 0,
                         imm = a\<rparr>" "stalls_inserted s4 = stalls_inserted s"
    by (auto simp: is_store_def read_register_def decode_immediate_def)
  have "ex_mem s' = ex_mem s3" "id_ex s' = id_ex s4" "stalls_inserted s' = stalls_inserted s4"
    using decode_stage_frame[OF d] st(5,6)
    by (cases v; simp add: fetch_stage_frame)+
  with s3 s4 show ?thesis by simp
qed

text \<open>The cycle in which the producer is in MEM and the STORE in EX.\<close>

lemma step_store_execute:
  assumes "step v s = Inr s'"
    and "valid (ex_mem s)" "instruction (ex_mem s) = Some p"
    and "id_ex s = \<lparr>valid = True, instruction = Some q, rs1_value = 0, rs2_value = 0,
                     imm = a\<rparr>"
    and "op q = STORE"
  shows "valid (mem_wb s') \<and> instruction (mem_wb s') = Some p \<and>
         valid (ex_mem s') \<and> instruction (ex_mem s') = Some q \<and> alu_result (ex_mem s') = a \<and>
         stalls_inserted s' = stalls_inserted s"
  using assms(1)
proof (rule stepE)
  fix s1 s2 s3 s4 s5
  assume st: "writeback_stage (s\<lparr>cycles := cycles s + 1\<rparr>) = Inr s1"
    "memory_stage s1 = Inr s2" "execute_stage v s2 = Inr s3"
    "decode_stage (case v of CPU \<Rightarrow> post_ex_flush s3 | CPU_Pipeline \<Rightarrow> s3) = Inr s4"
    "fetch_stage v s4 = Inr s5"
    "s' = (case v of CPU \<Rightarrow> update_pipeline_view s5
                   | CPU_Pipeline \<Rightarrow> reset_flush (update_pipeline_view s5))"
  let ?s3 = "case v of CPU \<Rightarrow> post_ex_flush s3 | CPU_Pipeline \<Rightarrow> s3"
  have s1: "ex_mem s1 = ex_mem s" "id_ex s1 = id_ex s" "stalls_inserted s1 = stalls_inserted s"
    using st(1) by (simp_all add: writeback_stage_frame)
  have s2: "valid (mem_wb s2)" "instruction (mem_wb s2) = Some p" "id_ex s2 = id_ex s"
    "stalls_inserted s2 = stalls_inserted s"
    using memory_stage_frame[OF st(2)] s1 assms(2,3) by simp_all
  have x: "valid (id_ex s2)" "instruction (id_ex s2) = Some q" "imm (id_ex s2) = a"
    using s2(3) assms(4) by simp_all
  have s3: "mem_wb s3 = mem_wb s2" "valid (ex_mem s3)" "instruction (ex_mem s3) = Some q"
    "alu_result (ex_mem s3) = a" "id_ex s3 = id_ex s" "stalls_inserted s3 = stalls_inserted s"
    using execute_stage_frame[OF st(3)] execute_stage_store(1)[OF st(3) x(1,2) assms(5)] x s2
    by simp_all
  have "\<And>j. instruction (id_ex ?s3) = Some j \<Longrightarrow> op j \<noteq> LOAD"
    using s3(5) assms(4,5) by (cases v) auto
  from decode_stage_no_load[OF st(4) this]
  have "stalls_inserted s4 = stalls_inserted s" using s3(6) by (cases v) simp_all
  moreover have "mem_wb s' = mem_wb s3" "ex_mem s' = ex_mem s3"
    "stalls_inserted s' = stalls_inserted s4"
    using decode_stage_frame[OF st(4)] st(5,6)
    by (cases v; simp add: fetch_stage_frame)+
  ultimately show ?thesis using s2 s3 by simp
qed

text \<open>
  C9. A STORE that directly follows the instruction writing its source register stores
  that instruction's result. When the producer (ADD, SUB, MUL or LOAD with nonzero
  \<open>rd = r\<close>) is in ID/EX and the \<open>STORE Rr, a\<close> right behind it in IF/ID, then over the
  next three steps no stall is inserted in front of the STORE, the producer is in MEM/WB
  when the STORE is in EX/MEM, and the third step writes the producer's result to
  register \<open>r\<close> in WB before the STORE reads register \<open>r\<close> in MEM: memory word \<open>a\<close> and
  register \<open>r\<close> both hold the producer's result. Both versions.
\<close>

theorem store_reads_written_register:
  assumes "valid (id_ex s)" and "instruction (id_ex s) = Some p" and "is_producer p r"
    and "valid (if_id s)" and "instruction (if_id s) = Some q" and "is_store q r a"
    and "\<not> flush s" and "in_memory s a"
    and "step v s = Inr s1" and "step v s1 = Inr s2" and "step v s2 = Inr s3"
  shows "valid (mem_wb s2) \<and> instruction (mem_wb s2) = Some p \<and>
         valid (ex_mem s2) \<and> instruction (ex_mem s2) = Some q \<and>
         stalls_inserted s2 = stalls_inserted s \<and>
         py_get (registers s3) r = Inr (result (mem_wb s2)) \<and>
         memory s3 ! nat a = result (mem_wb s2)"
proof -
  note a1 = step_producer_execute[OF assms(9) assms(1-7)]
  have st: "op q = STORE" "rs q = Some r" using assms(6) by (simp_all add: is_store_def)
  from a1 have b: "valid (ex_mem s1)" "instruction (ex_mem s1) = Some p"
    "id_ex s1 = \<lparr>valid = True, instruction = Some q, rs1_value = 0, rs2_value = 0, imm = a\<rparr>"
    by simp_all
  note a2 = step_store_execute[OF assms(10) b st(1)]
  have "length (memory s2) = length (memory s)"
    using step_memory_length[OF assms(9)] step_memory_length[OF assms(10)] by simp
  with assms(8) a2 have "in_memory s2 (alu_result (ex_mem s2))" by (simp add: in_memory_def)
  moreover from a2 have "valid (mem_wb s2)" "instruction (mem_wb s2) = Some p"
    "valid (ex_mem s2)" "instruction (ex_mem s2) = Some q" "alu_result (ex_mem s2) = a"
    by simp_all
  ultimately have "memory s3 ! nat a = result (mem_wb s2) \<and>
        py_get (registers s3) r = Inr (result (mem_wb s2))"
    using step_writeback_before_store[OF assms(11) _ _ assms(3) _ _ st] by simp
  with a1 a2 show ?thesis by simp
qed

theorem store_reads_written_register_witness:
  "\<exists>s s3. steps CPU 2 store_state = Inr s \<and> steps CPU 3 s = Inr s3 \<and>
      instruction (id_ex s) = Some add_r1 \<and> instruction (if_id s) = Some store_r1 \<and>
      memory s3 ! 100 = 30 \<and> py_get (registers s3) 1 = Inr 30"
proof -
  have "case steps CPU 2 store_state of Inl e \<Rightarrow> False | Inr s \<Rightarrow>
        (case step CPU s of Inl e \<Rightarrow> False | Inr s1 \<Rightarrow>
        (case step CPU s1 of Inl e \<Rightarrow> False | Inr s2 \<Rightarrow>
        (case step CPU s2 of Inl e \<Rightarrow> False | Inr s3 \<Rightarrow>
           valid (id_ex s) \<and> instruction (id_ex s) = Some add_r1 \<and>
           valid (if_id s) \<and> instruction (if_id s) = Some store_r1 \<and>
           \<not> flush s \<and> in_memory s 100 \<and> result (mem_wb s2) = 30)))"
    by code_simp
  then obtain s s1 s2 s3 where e: "steps CPU 2 store_state = Inr s" "step CPU s = Inr s1"
      "step CPU s1 = Inr s2" "step CPU s2 = Inr s3"
      "valid (id_ex s)" "instruction (id_ex s) = Some add_r1"
      "valid (if_id s)" "instruction (if_id s) = Some store_r1"
      "\<not> flush s" "in_memory s 100" "result (mem_wb s2) = 30"
    by (auto split: sum.splits)
  have p: "is_producer add_r1 1" by (simp add: is_producer_def add_r1_def writes_register_def)
  have q: "is_store store_r1 1 100" by (simp add: is_store_def store_r1_def)
  from store_reads_written_register [OF e(5,6) p e(7,8) q e(9,10) e(2,3,4)] e(11)
  have "memory s3 ! 100 = 30 \<and> py_get (registers s3) 1 = Inr 30" by simp
  moreover have "steps CPU 3 s = Inr s3"
    using e(2,3,4) by (simp add: eval_nat_numeral)
  ultimately show ?thesis using e(1,6,8) by blast
qed


section \<open>The two versions on a jump\<close>

text \<open>
  C1. The two versions are not equivalent on a program with a taken branch. On the
  program \<open>JUMP 1\<close> the version \<open>CPU\<close> returns after 5 cycles with one branch taken and
  one instruction completed; in the version \<open>CPU_Pipeline\<close> the JUMP stays in ID/EX and
  is executed again in every cycle, so \<open>run\<close> never returns, and after 10 cycles it has
  counted 8 branches and 6 completed instructions.
\<close>

theorem versions_differ_on_jump:
  "run CPU_Pipeline jump_out_state = None
   \<and> (case run CPU jump_out_state of
        Some (Inr s) \<Rightarrow> cycles s = 5 \<and> branches_taken s = 1 \<and> instructions_completed s = 1
      | _ \<Rightarrow> False)
   \<and> (case run_cycles CPU_Pipeline 10 jump_out_state of
        Inr s \<Rightarrow> cycles s = 10 \<and> branches_taken s = 8 \<and> instructions_completed s = 6
      | Inl e \<Rightarrow> False)"
proof -
  obtain s where s: "run_cycles CPU_Pipeline 4 jump_out_state = Inr s" "stuck s"
    using jump_out_gets_stuck by (auto split: sum.splits)
  have "run CPU_Pipeline s = None"
    using stuck_step s(2) by (rule invariant_never_returns)
  with run_cycles_run [OF s(1)] have a: "run CPU_Pipeline jump_out_state = None" by simp
  have "case run_cycles CPU 10 jump_out_state of
          Inr s \<Rightarrow> \<not> busy s \<and> cycles s = 5 \<and> branches_taken s = 1 \<and>
                   instructions_completed s = 1
        | Inl e \<Rightarrow> False"
    by code_simp
  then obtain t where t: "run_cycles CPU 10 jump_out_state = Inr t" "\<not> busy t"
      "cycles t = 5" "branches_taken t = 1" "instructions_completed t = 1"
    by (auto split: sum.splits)
  from run_cycles_run [OF t(1)] run_idle [OF t(2)] have "run CPU jump_out_state = Some (Inr t)"
    by simp
  with t have b: "case run CPU jump_out_state of
        Some (Inr s) \<Rightarrow> cycles s = 5 \<and> branches_taken s = 1 \<and> instructions_completed s = 1
      | _ \<Rightarrow> False"
    by simp
  have c: "case run_cycles CPU_Pipeline 10 jump_out_state of
        Inr s \<Rightarrow> cycles s = 10 \<and> branches_taken s = 8 \<and> instructions_completed s = 6
      | Inl e \<Rightarrow> False"
    by code_simp
  from a b c show ?thesis by blast
qed


section \<open>LRU replacement in a set of two ways\<close>

declare log2_floor.simps [simp del]

lemma log2_floor_1 [simp]: "log2_floor (Suc 0) = 0"
  by (simp add: log2_floor.simps)

lemma upt_small: "[0..<Suc 0] = [0]" "[0..<2] = [0, Suc 0]" "[Suc 0..<2] = [Suc 0]"
  by (simp_all add: upt_rec)

lemma cargar_palabras_one:
  assumes "0 \<le> base"
  shows "cargar_palabras (map rnd [0..<nat tm]) tm base [0] [d] =
         Inr [if base < tm then rnd (nat base) else d]"
  using assms by (simp add: py_get_def py_set_def py_index_def)

lemmas cache_defs =
  leer_asociativa_def encontrar_via_def seleccionar_via_reemplazo_def leer_via_def
  guardar_via_def cargar_bloque_def desglosar_direccion_def direccion_base_def
  py_get_def py_set_def py_index_def upt_small Let_def

lemma init_one:
  "CacheAsociativaConjuntos_init 1 1 tm rnd =
     Inr (cache2 tm rnd 0 0 0 (BloqueCache_init 1) (BloqueCache_init 1))"
  by (simp add: CacheAsociativaConjuntos_init_def int_log2_def cache2_def eval_nat_numeral)

lemma cache2_tag: "desglosar_direccion (cache2 tm rnd n h m w0 w1) a = (a, 0, 0)"
  by (simp add: desglosar_direccion_def cache2_def)

lemma cache2_find:
  "encontrar_via (cache2 tm rnd n h m w0 w1) 0 e =
     Inr (if valido w0 \<and> etiqueta w0 = e then Some 0
          else if valido w1 \<and> etiqueta w1 = e then Some 1 else None)"
  by (simp add: encontrar_via_def cache2_def py_get_def py_index_def upt_small)

lemma cache2_miss_way0:
  assumes "0 \<le> a" "\<not> valido w0" "\<not> (valido w1 \<and> etiqueta w1 = a)" "datos w0 = [d]"
  shows "leer_asociativa (cache2 tm rnd n h m w0 w1) a =
         Inr (dato_cargado tm rnd a d,
              cache2 tm rnd (n + 1) h (m + 1) (via_de a (dato_cargado tm rnd a d) (n + 1)) w1)"
  using assms
  by (simp add: cache_defs cache2_def via_de_def dato_cargado_def cargar_palabras_one
           del: cargar_palabras.simps)

lemma cache2_miss_way1:
  assumes "0 \<le> a" "valido w0" "etiqueta w0 \<noteq> a" "\<not> valido w1" "datos w1 = [d]"
  shows "leer_asociativa (cache2 tm rnd n h m w0 w1) a =
         Inr (dato_cargado tm rnd a d,
              cache2 tm rnd (n + 1) h (m + 1) w0 (via_de a (dato_cargado tm rnd a d) (n + 1)))"
  using assms
  by (simp add: cache_defs cache2_def via_de_def dato_cargado_def cargar_palabras_one
           del: cargar_palabras.simps)

lemma cache2_hit_way0:
  assumes "valido w0" "etiqueta w0 = a" "datos w0 = [d]"
  shows "leer_asociativa (cache2 tm rnd n h m w0 w1) a =
         Inr (d, cache2 tm rnd (n + 1) (h + 1) m (w0\<lparr>contador_uso := n + 1\<rparr>) w1)"
  using assms
  by (simp add: cache_defs cache2_def)

lemma cache2_evict_way1:
  assumes "0 \<le> a" "valido w0" "etiqueta w0 \<noteq> a" "valido w1" "etiqueta w1 \<noteq> a"
    "contador_uso w1 < contador_uso w0" "datos w1 = [d]"
  shows "leer_asociativa (cache2 tm rnd n h m w0 w1) a =
         Inr (dato_cargado tm rnd a d,
              cache2 tm rnd (n + 1) h (m + 1) w0 (via_de a (dato_cargado tm rnd a d) (n + 1)))"
  using assms
  by (simp add: cache_defs cache2_def via_de_def dato_cargado_def cargar_palabras_one
           del: cargar_palabras.simps)

lemma via_de_simps [simp]:
  "valido (via_de e d n)" "etiqueta (via_de e d n) = e" "datos (via_de e d n) = [d]"
  "contador_uso (via_de e d n) = n"
  "(via_de e d n)\<lparr>contador_uso := k\<rparr> = via_de e d k"
  by (simp_all add: via_de_def)

lemma BloqueCache_init_simps [simp]:
  "\<not> valido (BloqueCache_init 1)" "datos (BloqueCache_init 1) = [0]"
  by (simp_all add: BloqueCache_init_def)

lemma cache2_counters [simp]:
  "accesos (cache2 tm rnd n h m w0 w1) = n" "aciertos (cache2 tm rnd n h m w0 w1) = h"
  "fallos (cache2 tm rnd n h m w0 w1) = m" "conjuntos (cache2 tm rnd n h m w0 w1) = [[w0, w1]]"
  by (simp_all add: cache2_def)

text \<open>
  C7. A fresh 2-way cache with blocks of one word and one set; three addresses \<open>A\<close>, \<open>B\<close>,
  \<open>C\<close> that are not negative and pairwise distinct (the tag of an address is the address
  itself). After the reads of \<open>A\<close>, \<open>B\<close>, \<open>A\<close> way 0 holds \<open>A\<close> with counter 3 and way 1
  holds \<open>B\<close> with counter 2; the read of \<open>C\<close> misses and replaces way 1: afterwards \<open>B\<close> is
  not in the cache, \<open>A\<close> is still in way 0, \<open>C\<close> is in way 1, and the statistics are 4
  accesses, 1 hit and 3 misses. For every memory size and memory content.
\<close>

theorem lru_evicts_older_way:
  assumes "0 \<le> A" and "0 \<le> B" and "0 \<le> C" and "A \<noteq> B" and "A \<noteq> C" and "B \<noteq> C"
  shows
    "case CacheAsociativaConjuntos_init 1 1 tm rnd of
       Inl e \<Rightarrow> False
     | Inr c0 \<Rightarrow>
         fst (desglosar_direccion c0 A) = A \<and> fst (desglosar_direccion c0 B) = B \<and>
         fst (desglosar_direccion c0 C) = C \<and>
         (case leer_todas c0 [A, B, A] of
            Inl e \<Rightarrow> False
          | Inr c3 \<Rightarrow>
              encontrar_via c3 0 A = Inr (Some 0) \<and> encontrar_via c3 0 B = Inr (Some 1) \<and>
              map contador_uso (conjuntos c3 ! 0) = [3, 2] \<and>
              (case leer_asociativa c3 C of
                 Inl e \<Rightarrow> False
               | Inr (x, c4) \<Rightarrow>
                   encontrar_via c4 0 A = Inr (Some 0) \<and> encontrar_via c4 0 B = Inr None \<and>
                   encontrar_via c4 0 C = Inr (Some 1) \<and>
                   map etiqueta (conjuntos c4 ! 0) = [A, C] \<and>
                   accesos c4 = 4 \<and> aciertos c4 = 1 \<and> fallos c4 = 3))"
proof -
  let ?inv = "BloqueCache_init 1"
  let ?dA = "dato_cargado tm rnd A 0"
  let ?dB = "dato_cargado tm rnd B 0"
  let ?dC = "dato_cargado tm rnd C ?dB"
  have s1: "leer_asociativa (cache2 tm rnd 0 0 0 ?inv ?inv) A =
            Inr (?dA, cache2 tm rnd 1 0 1 (via_de A ?dA 1) ?inv)"
    using cache2_miss_way0[of A ?inv ?inv 0 tm rnd 0 0 0] assms(1) by simp
  have s2: "leer_asociativa (cache2 tm rnd 1 0 1 (via_de A ?dA 1) ?inv) B =
            Inr (?dB, cache2 tm rnd 2 0 2 (via_de A ?dA 1) (via_de B ?dB 2))"
    using cache2_miss_way1[of B "via_de A ?dA 1" ?inv 0 tm rnd 1 0 1] assms(2,4) by simp
  have s3: "leer_asociativa (cache2 tm rnd 2 0 2 (via_de A ?dA 1) (via_de B ?dB 2)) A =
            Inr (?dA, cache2 tm rnd 3 1 2 (via_de A ?dA 3) (via_de B ?dB 2))"
    using cache2_hit_way0[of "via_de A ?dA 1" A ?dA tm rnd 2 0 2 "via_de B ?dB 2"] by simp
  have s4: "leer_asociativa (cache2 tm rnd 3 1 2 (via_de A ?dA 3) (via_de B ?dB 2)) C =
            Inr (?dC, cache2 tm rnd 4 1 3 (via_de A ?dA 3) (via_de C ?dC 4))"
    using cache2_evict_way1[of C "via_de A ?dA 3" "via_de B ?dB 2" ?dB tm rnd 3 1 2]
      assms(3,5,6) by simp
  have all: "leer_todas (cache2 tm rnd 0 0 0 ?inv ?inv) [A, B, A] =
             Inr (cache2 tm rnd 3 1 2 (via_de A ?dA 3) (via_de B ?dB 2))"
    by (simp add: s1 s2 s3)
  show ?thesis
    using assms(4,5,6)
    by (simp add: init_one all s4 cache2_tag cache2_find del: leer_todas.simps)
qed

theorem lru_evicts_older_way_witness:
  "case CacheAsociativaConjuntos_init 1 1 16 triple of
     Inl e \<Rightarrow> False
   | Inr c0 \<Rightarrow>
       (case leer_todas c0 [5, 9, 5] of
          Inl e \<Rightarrow> False
        | Inr c3 \<Rightarrow>
            encontrar_via c3 0 9 = Inr (Some 1) \<and>
            (case leer_asociativa c3 20 of
               Inl e \<Rightarrow> False
             | Inr (x, c4) \<Rightarrow>
                 encontrar_via c4 0 9 = Inr None \<and> map etiqueta (conjuntos c4 ! 0) = [5, 20] \<and>
                 aciertos c4 = 1 \<and> fallos c4 = 3))"
  using lru_evicts_older_way [of 5 9 20 16 triple]
  by (auto split: sum.splits)

section \<open>Writes and main memory\<close>

lemma indice_eq:
  "drop_bit bo (a AND push_bit bo (push_bit bi 1 - 1)) = take_bit bi (drop_bit bo (a::int))"
proof -
  have "push_bit bi 1 - 1 = (mask bi :: int)" by (simp add: mask_eq_exp_minus_1 push_bit_eq_mult)
  then show ?thesis
    by (simp only:) (rule bit_eqI, auto simp: bit_simps)
qed

lemma offset_eq: "a AND (push_bit bo 1 - 1) = take_bit bo (a::int)"
proof -
  have "push_bit bo 1 - 1 = (mask bo :: int)" by (simp add: mask_eq_exp_minus_1 push_bit_eq_mult)
  then show ?thesis by (simp add: take_bit_eq_mask)
qed

lemma desglosar_bounds:
  assumes "cache_ok c" "desglosar_direccion c a = (e, i, off)" "0 \<le> a"
  shows "0 \<le> e" "0 \<le> i" "i < 2 ^ bits_indice c" "0 \<le> off" "off < 2 ^ bits_offset c"
    "0 \<le> direccion_base c e i"
proof -
  from assms(2) have d: "e = drop_bit (bits_offset c + bits_indice c) a"
    "i = drop_bit (bits_offset c) (a AND mascara_indice c)" "off = a AND mascara_offset c"
    by (simp_all add: desglosar_direccion_def)
  from assms(1) have m: "mascara_offset c = push_bit (bits_offset c) 1 - 1"
    "mascara_indice c = push_bit (bits_offset c) (push_bit (bits_indice c) 1 - 1)"
    by (simp_all add: cache_ok_def)
  have i: "i = take_bit (bits_indice c) (drop_bit (bits_offset c) a)"
    unfolding d(2) m(2) by (rule indice_eq)
  have off: "off = take_bit (bits_offset c) a"
    unfolding d(3) m(1) by (rule offset_eq)
  show "0 \<le> e" using d(1) assms(3) by simp
  show "0 \<le> i" "i < 2 ^ bits_indice c" using i by simp_all
  show "0 \<le> off" "off < 2 ^ bits_offset c" using off by simp_all
  show "0 \<le> direccion_base c e i"
    using \<open>0 \<le> e\<close> \<open>0 \<le> i\<close> by (simp add: direccion_base_def)
qed

lemma py_get_nth: "0 \<le> i \<Longrightarrow> i < int (length xs) \<Longrightarrow> py_get xs i = Inr (xs ! nat i)"
  by (simp add: py_get_def py_index_def)

lemma py_set_upd: "0 \<le> i \<Longrightarrow> i < int (length xs) \<Longrightarrow> py_set xs i v = Inr (xs[nat i := v])"
  by (simp add: py_set_def py_index_def)

lemma cargar_palabras_ok:
  assumes "0 \<le> base" "tm \<le> int (length mem)" "\<forall>k\<in>set ks. k < length ds"
  shows "\<exists>ds'. cargar_palabras mem tm base ks ds = Inr ds' \<and> length ds' = length ds"
  using assms(3)
proof (induction ks arbitrary: ds)
  case Nil
  then show ?case by simp
next
  case (Cons k ks)
  show ?case
  proof (cases "base + int k < tm")
    case True
    with assms(1,2) have g: "py_get mem (base + int k) = Inr (mem ! nat (base + int k))"
      by (intro py_get_nth) auto
    from Cons.prems have s: "py_set ds (int k) (mem ! nat (base + int k)) =
        Inr (ds[k := mem ! nat (base + int k)])"
      by (simp add: py_set_upd)
    from Cons.prems have "\<forall>j\<in>set ks. j < length (ds[k := mem ! nat (base + int k)])" by simp
    from Cons.IH[OF this] True g s show ?thesis by simp
  next
    case False
    from Cons.prems have "\<forall>j\<in>set ks. j < length ds" by simp
    from Cons.IH[OF this] False show ?thesis by simp
  qed
qed

lemma cargar_bloque_ok:
  assumes "cache_ok c" "bloque_ok c b" "0 \<le> direccion_base c e i"
  shows "\<exists>b'. cargar_bloque c e i b = Inr b' \<and> bloque_ok c b' \<and> etiqueta b' = etiqueta b \<and>
              valido b' = valido b \<and> contador_uso b' = contador_uso b"
proof -
  have "\<forall>k\<in>set [0..<nat (tamano_bloque c)]. k < length (datos b)"
    using assms(2) by (auto simp: bloque_ok_def)
  from cargar_palabras_ok[OF assms(3) _ this, of "tamano_memoria c" "memoria_principal c"] assms(1,2)
  show ?thesis by (auto simp: cargar_bloque_def cache_ok_def bloque_ok_def)
qed

lemma frame_accesos [simp]:
  "desglosar_direccion (c\<lparr>accesos := x\<rparr>) a = desglosar_direccion c a"
  "cargar_bloque (c\<lparr>accesos := x\<rparr>) e i b = cargar_bloque c e i b"
  "cache_ok (c\<lparr>accesos := x\<rparr>) = cache_ok c"
  "bloque_ok (c\<lparr>accesos := x\<rparr>) b = bloque_ok c b"
  by (simp_all add: desglosar_direccion_def cargar_bloque_def direccion_base_def cache_ok_def
      bloque_ok_def)

lemma frame_aciertos [simp]:
  "cache_ok (c\<lparr>aciertos := x\<rparr>) = cache_ok c"
  "bloque_ok (c\<lparr>aciertos := x\<rparr>) b = bloque_ok c b"
  by (simp_all add: cache_ok_def bloque_ok_def)

lemma frame_fallos [simp]:
  "cache_ok (c\<lparr>fallos := x\<rparr>) = cache_ok c"
  "bloque_ok (c\<lparr>fallos := x\<rparr>) b = bloque_ok c b"
  by (simp_all add: cache_ok_def bloque_ok_def)

lemma bloque_ok_update [simp]:
  "bloque_ok c (b\<lparr>etiqueta := e\<rparr>) = bloque_ok c b"
  "bloque_ok c (b\<lparr>valido := t\<rparr>) = bloque_ok c b"
  "bloque_ok c (b\<lparr>contador_uso := n\<rparr>) = bloque_ok c b"
  by (simp_all add: bloque_ok_def)

lemma list_all_update: "list_all P xs \<Longrightarrow> P x \<Longrightarrow> list_all P (xs[k := x])"
  using set_update_subset_insert[of xs k x] by (auto simp: list_all_iff)

lemma escribir_memoria_ok:
  assumes "cache_ok c" "0 \<le> a"
  shows "escribir_memoria c a v =
         Inr (if a < tamano_memoria c then (memoria_principal c)[nat a := v]
              else memoria_principal c)"
  using assms by (simp add: escribir_memoria_def cache_ok_def py_set_upd)

lemma misma_forma_ok:
  assumes "misma_forma c c'"
  shows "cache_ok c' = cache_ok c" "bloque_ok c' = bloque_ok c"
  using assms by (auto simp: misma_forma_def cache_ok_def bloque_ok_def fun_eq_iff)

lemma escribir_directo_ok:
  assumes ok: "directo_ok c" and A: "0 \<le> A" and d: "desglosar_direccion c A = (e, i, off)"
  shows "\<exists>c'. escribir_directo c A v = Inr c' \<and> directo_ok c' \<and>
           memoria_principal c' =
             (if A < tamano_memoria c then (memoria_principal c)[nat A := v]
              else memoria_principal c) \<and>
           valido (lineas c' ! nat i) \<and> etiqueta (lineas c' ! nat i) = e \<and>
           datos (lineas c' ! nat i) ! nat off = v"
proof -
  from ok have cok: "cache_ok c" and len: "2 ^ bits_indice c \<le> int (length (lineas c))"
    and blk: "list_all (bloque_ok c) (lineas c)"
    by (simp_all add: directo_ok_def)
  note b = desglosar_bounds[OF cok d A]
  have i_lt: "i < int (length (lineas c))"
    using b(3) len by linarith
  define l where "l = lineas c ! nat i"
  have g: "py_get (lineas c) i = Inr l"
    using py_get_nth[OF b(2) i_lt] by (simp add: l_def)
  have lok: "bloque_ok c l"
    using blk i_lt b(2) by (simp add: list_all_length l_def)
  obtain l1 where l1: "cargar_bloque c e i l = Inr l1" "bloque_ok c l1"
    using cargar_bloque_ok[OF cok lok b(6)] by blast
  define l2 where "l2 = (if valido l \<and> etiqueta l = e then l else l1\<lparr>etiqueta := e, valido := True\<rparr>)"
  have l2ok: "bloque_ok c l2" "valido l2" "etiqueta l2 = e"
    using lok l1(2) by (auto simp: l2_def)
  have off_lt: "off < int (length (datos l2))"
    using b(5) cok l2ok(1) by (simp add: cache_ok_def bloque_ok_def)
  have s: "py_set (datos l2) off v = Inr ((datos l2)[nat off := v])"
    by (rule py_set_upd[OF b(4) off_lt])
  define l3 where "l3 = l2\<lparr>datos := (datos l2)[nat off := v]\<rparr>"
  have l3ok: "bloque_ok c l3" "valido l3" "etiqueta l3 = e" "datos l3 ! nat off = v"
    using l2ok off_lt b(4) by (auto simp: l3_def bloque_ok_def)
  have ls: "py_set (lineas c) i l3 = Inr ((lineas c)[nat i := l3])"
    by (rule py_set_upd[OF b(2) i_lt])
  have blk': "list_all (bloque_ok c) ((lineas c)[nat i := l3])"
    using blk l3ok(1) by (rule list_all_update)
  have "\<exists>c'. escribir_directo c A v = Inr c' \<and> misma_forma c c' \<and>
          lineas c' = (lineas c)[nat i := l3] \<and>
          memoria_principal c' =
             (if A < tamano_memoria c then (memoria_principal c)[nat A := v]
              else memoria_principal c)"
  proof (cases "valido l \<and> etiqueta l = e")
    case True
    with s ls have "py_set (datos l) off v = Inr ((datos l)[nat off := v])"
      "py_set (lineas c) i (l\<lparr>datos := (datos l)[nat off := v]\<rparr>) = Inr ((lineas c)[nat i := l3])"
      by (simp_all add: l2_def l3_def)
    with True cok A d g show ?thesis
      by (simp add: escribir_directo_def Let_def escribir_memoria_ok misma_forma_def)
  next
    case False
    then have "l2 = l1\<lparr>etiqueta := e, valido := True\<rparr>"
      unfolding l2_def by (rule if_not_P)
    with s ls have pre: "py_set (datos l1) off v = Inr ((datos l1)[nat off := v])"
      "py_set (lineas c) i (l1\<lparr>etiqueta := e, valido := True, datos := (datos l1)[nat off := v]\<rparr>) =
       Inr ((lineas c)[nat i := l3])"
      by (simp_all add: l3_def)
    show ?thesis
    proof (cases "valido l")
      case True
      with False have "etiqueta l \<noteq> e" by simp
      with True pre cok A d g l1(1) show ?thesis
        by (simp add: escribir_directo_def Let_def escribir_memoria_ok misma_forma_def)
    next
      case False
      with pre cok A d g l1(1) show ?thesis
        by (simp add: escribir_directo_def Let_def escribir_memoria_ok misma_forma_def)
    qed
  qed
  then obtain c' where c': "escribir_directo c A v = Inr c'" "misma_forma c c'"
      "lineas c' = (lineas c)[nat i := l3]"
      "memoria_principal c' =
         (if A < tamano_memoria c then (memoria_principal c)[nat A := v]
          else memoria_principal c)"
    by blast
  have "directo_ok c'"
    using cok len blk' c'(2,3) misma_forma_ok[OF c'(2)]
    by (simp add: directo_ok_def misma_forma_def)
  moreover have "lineas c' ! nat i = l3"
    using c'(3) i_lt b(2) by simp
  ultimately show ?thesis using c'(1,4) l3ok by auto
qed

lemma frame_asociativa [simp]:
  "desglosar_direccion (c\<lparr>contador_global := x\<rparr>) a = desglosar_direccion c a"
  "cargar_bloque (c\<lparr>contador_global := x\<rparr>) e i b = cargar_bloque c e i b"
  "cache_ok (c\<lparr>contador_global := x\<rparr>) = cache_ok c"
  "cache_ok (c\<lparr>conjuntos := cs\<rparr>) = cache_ok c"
  by (simp_all add: desglosar_direccion_def cargar_bloque_def direccion_base_def cache_ok_def)

lemma py_pair [simp]:
  "py_get [a, b] 0 = Inr a" "py_get [a, b] 1 = Inr b"
  "py_set [a, b] 0 x = Inr [x, b]" "py_set [a, b] 1 x = Inr [a, x]"
  by (simp_all add: py_get_def py_set_def py_index_def)

lemma encontrar_via_dos:
  assumes "0 \<le> i" "i < int (length (conjuntos c))" "conjuntos c ! nat i = [w0, w1]"
    "vias_por_conjunto c = 2"
  shows "encontrar_via c i e =
         Inr (if valido w0 \<and> etiqueta w0 = e then Some 0
              else if valido w1 \<and> etiqueta w1 = e then Some 1 else None)"
  using assms by (simp add: encontrar_via_def py_get_nth upt_small)

lemma seleccionar_via_dos:
  assumes "0 \<le> i" "i < int (length (conjuntos c))" "conjuntos c ! nat i = [w0, w1]"
    "vias_por_conjunto c = 2"
  shows "seleccionar_via_reemplazo c i =
         Inr (if \<not> valido w0 then 0 else if \<not> valido w1 then 1
              else if contador_uso w1 < contador_uso w0 then 1 else 0)"
  using assms by (simp add: seleccionar_via_reemplazo_def py_get_nth upt_small)

lemma leer_via_dos:
  assumes "0 \<le> i" "i < int (length (conjuntos c))" "conjuntos c ! nat i = [w0, w1]"
  shows "leer_via c i 0 = Inr w0" "leer_via c i (Suc 0) = Inr w1"
  using assms by (simp_all add: leer_via_def py_get_nth)

lemma guardar_via_dos:
  assumes "0 \<le> i" "i < int (length (conjuntos c))" "conjuntos c ! nat i = [w0, w1]"
  shows "guardar_via c i 0 b = Inr (c\<lparr>conjuntos := (conjuntos c)[nat i := [b, w1]]\<rparr>)"
    "guardar_via c i (Suc 0) b = Inr (c\<lparr>conjuntos := (conjuntos c)[nat i := [w0, b]]\<rparr>)"
  using assms by (simp_all add: guardar_via_def py_get_nth py_set_upd)

lemma dos_elementos: "length ws = 2 \<Longrightarrow> \<exists>a b. ws = [a, b]"
  by (auto simp: length_Suc_conv eval_nat_numeral)

lemmas escribir_dos =
  escribir_asociativa_def Let_def encontrar_via_dos seleccionar_via_dos leer_via_dos
  guardar_via_dos escribir_memoria_ok py_set_upd misma_forma_def

lemma escribir_asociativa_ok:
  assumes ok: "asociativa_ok c" and A: "0 \<le> A" and d: "desglosar_direccion c A = (e, i, off)"
  shows "\<exists>c' via. escribir_asociativa c A v = Inr c' \<and> asociativa_ok c' \<and>
           memoria_principal c' =
             (if A < tamano_memoria c then (memoria_principal c)[nat A := v]
              else memoria_principal c) \<and>
           via_seleccionada c i e = Inr via \<and>
           encontrar_via c' i e = Inr (Some via) \<and> via < 2 \<and>
           datos (conjuntos c' ! nat i ! via) ! nat off = v"
proof -
  from ok have cok: "cache_ok c" and len: "2 ^ bits_indice c \<le> int (length (conjuntos c))"
    and vias: "vias_por_conjunto c = 2"
    and blk: "list_all (\<lambda>ws. length ws = 2 \<and> list_all (bloque_ok c) ws) (conjuntos c)"
    by (simp_all add: asociativa_ok_def)
  note b = desglosar_bounds[OF cok d A]
  have i_lt: "i < int (length (conjuntos c))"
    using b(3) len by linarith
  have "length (conjuntos c ! nat i) = 2 \<and> list_all (bloque_ok c) (conjuntos c ! nat i)"
    using blk i_lt b(2) by (simp add: list_all_length)
  then obtain w0 w1 where cj: "conjuntos c ! nat i = [w0, w1]"
    and wok: "bloque_ok c w0" "bloque_ok c w1"
    using dos_elementos[of "conjuntos c ! nat i"] by auto
  have off_lt: "bloque_ok c w \<Longrightarrow> off < int (length (datos w))" for w
    using b(5) cok by (simp add: cache_ok_def bloque_ok_def)
  obtain l0 where l0: "cargar_bloque c e i w0 = Inr l0" "bloque_ok c l0"
    using cargar_bloque_ok[OF cok wok(1) b(6)] by blast
  obtain l1 where l1: "cargar_bloque c e i w1 = Inr l1" "bloque_ok c l1"
    using cargar_bloque_ok[OF cok wok(2) b(6)] by blast
  note bounds = b(2) i_lt cj vias b(4) off_lt[OF wok(1)] off_lt[OF wok(2)]
    off_lt[OF l0(2)] off_lt[OF l1(2)]
  define mem where "mem = (if A < tamano_memoria c then (memoria_principal c)[nat A := v]
              else memoria_principal c)"
  have "\<exists>c' b3. escribir_asociativa c A v = Inr c' \<and> misma_forma c c' \<and>
          vias_por_conjunto c' = 2 \<and> memoria_principal c' = mem \<and>
          bloque_ok c b3 \<and> valido b3 \<and> etiqueta b3 = e \<and> datos b3 ! nat off = v \<and>
          (via_seleccionada c i e = Inr 0 \<and> conjuntos c' = (conjuntos c)[nat i := [b3, w1]] \<or>
           via_seleccionada c i e = Inr (Suc 0) \<and>
           conjuntos c' = (conjuntos c)[nat i := [w0, b3]] \<and> \<not> (valido w0 \<and> etiqueta w0 = e))"
  proof (cases "valido w0 \<and> etiqueta w0 = e")
    case True
    let ?b3 = "w0\<lparr>contador_uso := contador_global c + 1, datos := (datos w0)[nat off := v]\<rparr>"
    have "escribir_asociativa c A v =
          Inr (c\<lparr>accesos := accesos c + 1, contador_global := contador_global c + 1,
                 aciertos := aciertos c + 1,
                 conjuntos := (conjuntos c)[nat i := [?b3, w1]], memoria_principal := mem\<rparr>)"
      using True cok A d bounds by (simp add: escribir_dos mem_def)
    moreover have "bloque_ok c ?b3 \<and> valido ?b3 \<and> etiqueta ?b3 = e \<and> datos ?b3 ! nat off = v"
      using True wok(1) bounds by (simp add: bloque_ok_def)
    moreover have "via_seleccionada c i e = Inr 0"
      using True bounds by (simp add: via_seleccionada_def encontrar_via_dos)
    ultimately show ?thesis
      by (intro exI[of _ "c\<lparr>accesos := accesos c + 1, contador_global := contador_global c + 1,
                 aciertos := aciertos c + 1,
                 conjuntos := (conjuntos c)[nat i := [?b3, w1]], memoria_principal := mem\<rparr>"]
            exI[of _ ?b3]) (simp add: misma_forma_def mem_def vias)
  next
    case h0: False
    then have n0: "(valido w0 \<and> etiqueta w0 = e) = False" by simp
    show ?thesis
    proof (cases "valido w1 \<and> etiqueta w1 = e")
      case True
      let ?b3 = "w1\<lparr>contador_uso := contador_global c + 1, datos := (datos w1)[nat off := v]\<rparr>"
      have "escribir_asociativa c A v =
            Inr (c\<lparr>accesos := accesos c + 1, contador_global := contador_global c + 1,
                   aciertos := aciertos c + 1,
                   conjuntos := (conjuntos c)[nat i := [w0, ?b3]], memoria_principal := mem\<rparr>)"
        using True cok A d bounds by (simp add: escribir_dos mem_def n0)
      moreover have "bloque_ok c ?b3 \<and> valido ?b3 \<and> etiqueta ?b3 = e \<and> datos ?b3 ! nat off = v"
        using True wok(2) bounds by (simp add: bloque_ok_def)
      moreover have "via_seleccionada c i e = Inr (Suc 0)"
        using True bounds by (simp add: via_seleccionada_def encontrar_via_dos n0)
      ultimately show ?thesis using h0
        by (intro exI[of _ "c\<lparr>accesos := accesos c + 1, contador_global := contador_global c + 1,
                   aciertos := aciertos c + 1,
                   conjuntos := (conjuntos c)[nat i := [w0, ?b3]], memoria_principal := mem\<rparr>"]
              exI[of _ ?b3]) (simp add: misma_forma_def mem_def vias)
    next
      case h1: False
      then have n1: "(valido w1 \<and> etiqueta w1 = e) = False" by simp
      define via :: nat where "via = (if \<not> valido w0 then 0 else if \<not> valido w1 then 1
              else if contador_uso w1 < contador_uso w0 then 1 else 0)"
      show ?thesis
      proof (cases "via = 0")
        case True
        let ?b3 = "l0\<lparr>etiqueta := e, contador_uso := contador_global c + 1, valido := True,
                       datos := (datos l0)[nat off := v]\<rparr>"
        have "escribir_asociativa c A v =
              Inr (c\<lparr>accesos := accesos c + 1, contador_global := contador_global c + 1,
                     fallos := fallos c + 1,
                     conjuntos := (conjuntos c)[nat i := [?b3, w1]], memoria_principal := mem\<rparr>)"
          using True cok A d bounds l0(1)
          by (simp add: escribir_dos mem_def n0 n1 via_def[symmetric])
        moreover have "bloque_ok c ?b3 \<and> valido ?b3 \<and> etiqueta ?b3 = e \<and> datos ?b3 ! nat off = v"
          using l0(2) bounds by (simp add: bloque_ok_def)
        moreover have "via_seleccionada c i e = Inr 0"
          using True bounds
          by (simp add: via_seleccionada_def encontrar_via_dos seleccionar_via_dos n0 n1
              via_def[symmetric])
        ultimately show ?thesis
          by (intro exI[of _ "c\<lparr>accesos := accesos c + 1, contador_global := contador_global c + 1,
                     fallos := fallos c + 1,
                     conjuntos := (conjuntos c)[nat i := [?b3, w1]], memoria_principal := mem\<rparr>"]
                exI[of _ ?b3]) (simp add: misma_forma_def mem_def vias)
      next
        case False
        then have v1: "via = Suc 0" by (simp add: via_def split: if_splits)
        let ?b3 = "l1\<lparr>etiqueta := e, contador_uso := contador_global c + 1, valido := True,
                       datos := (datos l1)[nat off := v]\<rparr>"
        have "escribir_asociativa c A v =
              Inr (c\<lparr>accesos := accesos c + 1, contador_global := contador_global c + 1,
                     fallos := fallos c + 1,
                     conjuntos := (conjuntos c)[nat i := [w0, ?b3]], memoria_principal := mem\<rparr>)"
          using v1 cok A d bounds l1(1)
          by (simp add: escribir_dos mem_def n0 n1 via_def[symmetric])
        moreover have "bloque_ok c ?b3 \<and> valido ?b3 \<and> etiqueta ?b3 = e \<and> datos ?b3 ! nat off = v"
          using l1(2) bounds by (simp add: bloque_ok_def)
        moreover have "via_seleccionada c i e = Inr (Suc 0)"
          using v1 bounds
          by (simp add: via_seleccionada_def encontrar_via_dos seleccionar_via_dos n0 n1
              via_def[symmetric])
        ultimately show ?thesis using h0
          by (intro exI[of _ "c\<lparr>accesos := accesos c + 1, contador_global := contador_global c + 1,
                     fallos := fallos c + 1,
                     conjuntos := (conjuntos c)[nat i := [w0, ?b3]], memoria_principal := mem\<rparr>"]
                exI[of _ ?b3]) (simp add: misma_forma_def mem_def vias)
      qed
    qed
  qed
  then obtain c' b3 where c': "escribir_asociativa c A v = Inr c'" "misma_forma c c'"
      "vias_por_conjunto c' = 2" "memoria_principal c' = mem"
      "bloque_ok c b3" "valido b3" "etiqueta b3 = e" "datos b3 ! nat off = v"
      "via_seleccionada c i e = Inr 0 \<and> conjuntos c' = (conjuntos c)[nat i := [b3, w1]] \<or>
       via_seleccionada c i e = Inr (Suc 0) \<and>
       conjuntos c' = (conjuntos c)[nat i := [w0, b3]] \<and> \<not> (valido w0 \<and> etiqueta w0 = e)"
    by blast
  define ws where "ws = conjuntos c' ! nat i"
  have cs: "conjuntos c' = (conjuntos c)[nat i := ws]"
    using c'(9) i_lt b(2) by (auto simp: ws_def)
  have ws: "ws = [b3, w1] \<or> ws = [w0, b3]"
    using c'(9) i_lt b(2) by (auto simp: ws_def)
  have wsok: "length ws = 2 \<and> list_all (bloque_ok c) ws"
    using ws wok c'(5) by auto
  have ok': "asociativa_ok c'"
    using cok len c'(2,3) cs misma_forma_ok[OF c'(2)] list_all_update[OF blk wsok, of "nat i"]
    by (simp add: asociativa_ok_def misma_forma_def)
  have i_lt': "i < int (length (conjuntos c'))" using i_lt cs by simp
  from c'(9) show ?thesis
  proof
    assume w: "via_seleccionada c i e = Inr 0 \<and> conjuntos c' = (conjuntos c)[nat i := [b3, w1]]"
    then have w': "ws = [b3, w1]" using i_lt b(2) by (simp add: ws_def)
    have "encontrar_via c' i e = Inr (Some 0)"
      using encontrar_via_dos[OF b(2) i_lt' _ c'(3), of b3 w1 e] w' c'(6,7) by (simp add: ws_def)
    moreover have "datos (conjuntos c' ! nat i ! 0) ! nat off = v"
      using w' c'(8) by (simp add: ws_def)
    ultimately show ?thesis using c'(1,4) ok' w
      by (intro exI[of _ c'] exI[of _ 0]) (simp add: mem_def)
  next
    assume w: "via_seleccionada c i e = Inr (Suc 0) \<and>
       conjuntos c' = (conjuntos c)[nat i := [w0, b3]] \<and> \<not> (valido w0 \<and> etiqueta w0 = e)"
    then have w': "ws = [w0, b3]" using i_lt b(2) by (simp add: ws_def)
    from w have n0: "(valido w0 \<and> etiqueta w0 = e) = False" by simp
    have "encontrar_via c' i e = Inr (Some (Suc 0))"
      using encontrar_via_dos[OF b(2) i_lt' _ c'(3), of w0 b3 e] w' c'(6,7)
      by (simp add: ws_def n0)
    moreover have "datos (conjuntos c' ! nat i ! Suc 0) ! nat off = v"
      using w' c'(8) by (simp add: ws_def)
    ultimately show ?thesis using c'(1,4) ok' w
      by (intro exI[of _ c'] exI[of _ "Suc 0"]) (simp add: mem_def)
  qed
qed

lemma log2_floor_le: "0 < n \<Longrightarrow> 2 ^ log2_floor n \<le> n"
proof (induction n rule: log2_floor.induct)
  case (1 n)
  show ?case
  proof (cases "n < 2")
    case True
    with 1(2) show ?thesis by (simp add: log2_floor.simps)
  next
    case False
    then have "0 < n div 2" by simp
    with 1(1) False have "2 ^ log2_floor (n div 2) \<le> n div 2" by simp
    with False show ?thesis by (subst log2_floor.simps) simp
  qed
qed

lemma int_log2_le:
  assumes "int_log2 n = Inr k"
  shows "2 ^ k \<le> n"
proof -
  from assms have n: "0 < n" "k = log2_floor (nat n)"
    by (auto simp: int_log2_def split: if_splits)
  from log2_floor_le[of "nat n"] n have "(2::nat) ^ k \<le> nat n" by simp
  then have "int (2 ^ k) \<le> int (nat n)" by (rule iffD2[OF of_nat_le_iff])
  with n(1) show ?thesis by simp
qed

lemma CacheMapeoDirecto_init_ok:
  assumes "CacheMapeoDirecto_init tb nl tm rnd = Inr c" "0 \<le> tm"
  shows "directo_ok c"
proof -
  from assms(1) obtain bo bi where l: "int_log2 tb = Inr bo" "int_log2 nl = Inr bi"
    and c: "c = \<lparr>tamano_bloque = tb, num_lineas = nl, tamano_memoria = tm,
            accesos = 0, aciertos = 0, fallos = 0,
            memoria_principal = map rnd [0..<nat tm],
            bits_offset = bo, bits_indice = bi,
            mascara_offset = push_bit bo 1 - 1,
            mascara_indice = push_bit bo (push_bit bi 1 - 1),
            lineas = replicate (nat nl) (BloqueCache_init tb)\<rparr>"
    by (auto simp: CacheMapeoDirecto_init_def bind_e_eq_Inr)
  from l have pos: "0 < tb" "0 < nl" by (auto simp: int_log2_def split: if_splits)
  from int_log2_le[OF l(1)] int_log2_le[OF l(2)] pos assms(2) show ?thesis
    unfolding c directo_ok_def cache_ok_def bloque_ok_def BloqueCache_init_def
    by (simp add: list_all_length)
qed

lemma CacheAsociativaConjuntos_init_ok:
  assumes "CacheAsociativaConjuntos_init tb nc tm rnd = Inr c" "0 \<le> tm"
  shows "asociativa_ok c"
proof -
  from assms(1) obtain bo bi where l: "int_log2 tb = Inr bo" "int_log2 nc = Inr bi"
    and c: "c = \<lparr>tamano_bloque = tb, num_lineas = nc * 2, tamano_memoria = tm,
            accesos = 0, aciertos = 0, fallos = 0,
            memoria_principal = map rnd [0..<nat tm],
            bits_offset = bo, bits_indice = bi,
            mascara_offset = push_bit bo 1 - 1,
            mascara_indice = push_bit bo (push_bit bi 1 - 1),
            num_conjuntos = nc, vias_por_conjunto = 2,
            conjuntos = replicate (nat nc) (replicate 2 (BloqueCache_init tb)),
            contador_global = 0\<rparr>"
    by (auto simp: CacheAsociativaConjuntos_init_def bind_e_eq_Inr)
  from l have pos: "0 < tb" "0 < nc" by (auto simp: int_log2_def split: if_splits)
  from int_log2_le[OF l(1)] int_log2_le[OF l(2)] pos assms(2) show ?thesis
    unfolding c asociativa_ok_def cache_ok_def bloque_ok_def BloqueCache_init_def
    by (simp add: list_all_length)
qed

text \<open>
  C10. In a well-formed cache, direct-mapped or 2-way, a write of \<open>v\<close> at an address \<open>A\<close>
  at or past \<open>tamano_memoria\<close> returns normally and leaves the main memory as it was;
  the block selected for the address (the line at the index; the way found or chosen for
  replacement in the set at the index) afterwards is valid, carries the tag of \<open>A\<close> and
  holds \<open>v\<close> at the offset of \<open>A\<close>. The caches built by the constructors with a
  memory size that is not negative are well formed (\<open>CacheMapeoDirecto_init_ok\<close>,
  \<open>CacheAsociativaConjuntos_init_ok\<close>), and a write keeps a cache well formed and stores
  \<open>v\<close> at \<open>A\<close> in main memory when \<open>A\<close> is below \<open>tamano_memoria\<close>
  (\<open>escribir_directo_ok\<close>, \<open>escribir_asociativa_ok\<close>).
\<close>

theorem escribir_fuera_de_memoria:
  "(directo_ok cd \<and> tamano_memoria cd \<le> A \<longrightarrow>
      (\<exists>cd'. escribir_directo cd A v = Inr cd' \<and>
         memoria_principal cd' = memoria_principal cd \<and>
         (case desglosar_direccion cd A of
            (e, i, off) \<Rightarrow>
              valido (lineas cd' ! nat i) \<and> etiqueta (lineas cd' ! nat i) = e \<and>
              datos (lineas cd' ! nat i) ! nat off = v))) \<and>
   (asociativa_ok ca \<and> tamano_memoria ca \<le> A \<longrightarrow>
      (\<exists>ca'. escribir_asociativa ca A v = Inr ca' \<and>
         memoria_principal ca' = memoria_principal ca \<and>
         (case desglosar_direccion ca A of
            (e, i, off) \<Rightarrow>
              (\<exists>via. via_seleccionada ca i e = Inr via \<and>
                 encontrar_via ca' i e = Inr (Some via) \<and>
                 datos (conjuntos ca' ! nat i ! via) ! nat off = v))))"
proof (intro conjI impI)
  assume h: "directo_ok cd \<and> tamano_memoria cd \<le> A"
  then have A: "0 \<le> A" by (simp add: directo_ok_def cache_ok_def)
  obtain e i off where d: "desglosar_direccion cd A = (e, i, off)"
    by (cases "desglosar_direccion cd A") auto
  from escribir_directo_ok[OF _ A d, of v] h
  show "\<exists>cd'. escribir_directo cd A v = Inr cd' \<and>
         memoria_principal cd' = memoria_principal cd \<and>
         (case desglosar_direccion cd A of
            (e, i, off) \<Rightarrow>
              valido (lineas cd' ! nat i) \<and> etiqueta (lineas cd' ! nat i) = e \<and>
              datos (lineas cd' ! nat i) ! nat off = v)"
    unfolding d by auto
next
  assume h: "asociativa_ok ca \<and> tamano_memoria ca \<le> A"
  then have A: "0 \<le> A" by (simp add: asociativa_ok_def cache_ok_def)
  obtain e i off where d: "desglosar_direccion ca A = (e, i, off)"
    by (cases "desglosar_direccion ca A") auto
  from escribir_asociativa_ok[OF _ A d, of v] h
  show "\<exists>ca'. escribir_asociativa ca A v = Inr ca' \<and>
         memoria_principal ca' = memoria_principal ca \<and>
         (case desglosar_direccion ca A of
            (e, i, off) \<Rightarrow>
              (\<exists>via. via_seleccionada ca i e = Inr via \<and>
                 encontrar_via ca' i e = Inr (Some via) \<and>
                 datos (conjuntos ca' ! nat i ! via) ! nat off = v))"
    unfolding d by auto
qed

theorem escribir_fuera_de_memoria_witness:
  "\<exists>cd ca. CacheMapeoDirecto_init 4 4 8 triple = Inr cd \<and>
      CacheAsociativaConjuntos_init 4 2 8 triple = Inr ca \<and>
      directo_ok cd \<and> asociativa_ok ca \<and> tamano_memoria cd \<le> 13 \<and> tamano_memoria ca \<le> 13 \<and>
      (\<exists>cd'. escribir_directo cd 13 77 = Inr cd' \<and>
         memoria_principal cd' = memoria_principal cd \<and> datos (lineas cd' ! 3) ! 1 = 77) \<and>
      (\<exists>ca' via. escribir_asociativa ca 13 77 = Inr ca' \<and>
         memoria_principal ca' = memoria_principal ca \<and>
         encontrar_via ca' 1 1 = Inr (Some via) \<and> datos (conjuntos ca' ! 1 ! via) ! 1 = 77)"
proof -
  have "case CacheMapeoDirecto_init 4 4 8 triple of Inl err \<Rightarrow> False
        | Inr cd \<Rightarrow> tamano_memoria cd = 8 \<and> desglosar_direccion cd 13 = (0, 3, 1)"
    by code_simp
  then obtain cd where cd: "CacheMapeoDirecto_init 4 4 8 triple = Inr cd"
      "tamano_memoria cd = 8" "desglosar_direccion cd 13 = (0, 3, 1)"
    by (auto split: sum.splits)
  have "case CacheAsociativaConjuntos_init 4 2 8 triple of Inl err \<Rightarrow> False
        | Inr ca \<Rightarrow> tamano_memoria ca = 8 \<and> desglosar_direccion ca 13 = (1, 1, 1)"
    by code_simp
  then obtain ca where ca: "CacheAsociativaConjuntos_init 4 2 8 triple = Inr ca"
      "tamano_memoria ca = 8" "desglosar_direccion ca 13 = (1, 1, 1)"
    by (auto split: sum.splits)
  have okd: "directo_ok cd" by (rule CacheMapeoDirecto_init_ok[OF cd(1)]) simp
  have oka: "asociativa_ok ca" by (rule CacheAsociativaConjuntos_init_ok[OF ca(1)]) simp
  from escribir_fuera_de_memoria [of cd 13 77 ca] okd oka cd(2,3) ca(2,3)
  have "(\<exists>cd'. escribir_directo cd 13 77 = Inr cd' \<and>
         memoria_principal cd' = memoria_principal cd \<and> datos (lineas cd' ! 3) ! 1 = 77) \<and>
      (\<exists>ca' via. escribir_asociativa ca 13 77 = Inr ca' \<and>
         memoria_principal ca' = memoria_principal ca \<and>
         encontrar_via ca' 1 1 = Inr (Some via) \<and> datos (conjuntos ca' ! 1 ! via) ! 1 = 77)"
    by (auto simp: eval_nat_numeral)
  with cd ca okd oka show ?thesis by auto
qed

end
